theory Spec2Isabelle
  imports Complex_Main "HOL-Library.AList" "HOL-Library.FSet"
begin

section \<open>Shared Python values\<close>

text \<open>
  The scripts are Python. Every exception the modelled code can raise is a value of
  \<open>py_error\<close>; a function that can raise returns \<open>py_error + 'a\<close> with
  \<open>Inl\<close> the exception. Numbers that are Python floats in the source (sizes,
  coordinates, contour areas, aspect ratios) are rationals here. Where a script
  compares the quotient of two integers with a decimal constant (the aspect ratio of
  a bounding rectangle with 0.2, 0.8, 1.2, 2 and 5), the floating-point comparison
  and the rational one agree for integers of the size of image dimensions. The
  rounding of other float arithmetic (the margin tests of the text heuristics) is not
  modelled; the statements below do not depend on it, and the examples lie far from
  the boundaries.
\<close>

text \<open>
  The messages of the \<open>ValueError\<close>s that \<open>copy_pdf_annotations.py\<close> raises, with
  the values their f-strings print.
\<close>

datatype value_error =
    SpecificationEmpty
  | RangeBelowOne int int
  | RangeStartAfterEnd int int
  | InvalidRangeFormat string
  | PageBelowOne int
  | InvalidPageNumber string
  | NoValidPages nat nat
  | MaxOfEmptySequence

datatype py_error =
    ValueError value_error
  | FileNotFoundError
  | ZeroDivisionError
  | IndexError
  | LibraryError

subsection \<open>Strings\<close>

text \<open>
  A Python \<open>str\<close> is a list of characters; a \<open>char\<close> stands for the code point of
  the same number (below 256). \<open>str.isspace\<close> holds of the code points 9 to 13, 28 to 32,
  133 and 160 in that range, and \<open>str.strip()\<close> removes such characters from both ends.
\<close>

definition py_isspace :: "char \<Rightarrow> bool" where
  "py_isspace c = (let n = (of_char c :: nat) in
     (9 \<le> n \<and> n \<le> 13) \<or> (28 \<le> n \<and> n \<le> 32) \<or> n = 133 \<or> n = 160)"

definition py_strip :: "string \<Rightarrow> string" where
  "py_strip s = rev (dropWhile py_isspace (rev (dropWhile py_isspace s)))"

text \<open>
  \<open>str.lower()\<close>: the upper-case letters below code point 256 are A to Z and 192 to
  222 without 215; each has its lower-case form 32 places further on.
\<close>

definition py_lower_char :: "char \<Rightarrow> char" where
  "py_lower_char c = (let n = (of_char c :: nat) in
     if (65 \<le> n \<and> n \<le> 90) \<or> (192 \<le> n \<and> n \<le> 222 \<and> n \<noteq> 215)
     then char_of (n + 32) else c)"

definition py_lower :: "string \<Rightarrow> string" where
  "py_lower s = map py_lower_char s"

text \<open>\<open>s.split(sep)\<close> for a one-character separator: never the empty list.\<close>

fun py_split :: "char \<Rightarrow> string \<Rightarrow> string list" where
  "py_split sep [] = [[]]"
| "py_split sep (c # cs) =
     (if c = sep then [] # py_split sep cs
      else (case py_split sep cs of [] \<Rightarrow> [[c]] | w # ws \<Rightarrow> (c # w) # ws))"

text \<open>\<open>s.split(sep, 1)\<close> for a string that contains \<open>sep\<close>: the parts around its first occurrence.\<close>

definition py_split_once :: "char \<Rightarrow> string \<Rightarrow> string \<times> string" where
  "py_split_once sep s = (takeWhile (\<lambda>c. c \<noteq> sep) s, drop 1 (dropWhile (\<lambda>c. c \<noteq> sep) s))"

text \<open>
  \<open>int(s)\<close> in base 10: surrounding whitespace is dropped, then an optional sign, then
  decimal digits, where single underscores may stand between two digits. Anything else
  is the \<open>ValueError\<close> "invalid literal for int()", here \<open>None\<close>. (The interpreter's
  limit on the number of digits of one literal is not modelled.)
\<close>

definition is_digit :: "char \<Rightarrow> bool" where
  "is_digit c = (let n = (of_char c :: nat) in 48 \<le> n \<and> n \<le> 57)"

definition digit_val :: "char \<Rightarrow> nat" where
  "digit_val c = of_char c - 48"

fun py_int_digits :: "nat \<Rightarrow> string \<Rightarrow> nat option" where
  "py_int_digits acc [] = Some acc"
| "py_int_digits acc [c] = (if is_digit c then Some (10 * acc + digit_val c) else None)"
| "py_int_digits acc (c # d # ds) =
     (if is_digit c then py_int_digits (10 * acc + digit_val c) (d # ds)
      else if c = CHR ''_'' \<and> is_digit d then py_int_digits (10 * acc + digit_val d) ds
      else None)"

definition py_int_unsigned :: "string \<Rightarrow> nat option" where
  "py_int_unsigned s =
     (case s of [] \<Rightarrow> None
      | c # cs \<Rightarrow> if is_digit c then py_int_digits (digit_val c) cs else None)"

definition py_int :: "string \<Rightarrow> int option" where
  "py_int s =
     (case py_strip s of [] \<Rightarrow> None
      | c # cs \<Rightarrow>
          if c = CHR ''+'' then map_option int (py_int_unsigned cs)
          else if c = CHR ''-'' then map_option (\<lambda>n. - int n) (py_int_unsigned cs)
          else map_option int (py_int_unsigned (c # cs)))"

subsection \<open>Dictionaries\<close>

text \<open>\<open>d.get(key, default)\<close> on a dictionary kept as a list of items.\<close>

definition dict_get :: "('k \<times> 'v) list \<Rightarrow> 'k \<Rightarrow> 'v \<Rightarrow> 'v" where
  "dict_get d key dflt = (case map_of d key of None \<Rightarrow> dflt | Some v \<Rightarrow> v)"

text \<open>
  A dictionary used as a counter (a \<open>defaultdict(int)\<close>, or a \<open>dict\<close> whose
  missing keys start at 1) is a list of keys with their counts, in the
  order the keys were first seen, which is the order \<open>.items()\<close> yields them in.
  \<open>d[k] += 1\<close>:
\<close>

fun bump :: "'k \<Rightarrow> ('k \<times> nat) list \<Rightarrow> ('k \<times> nat) list" where
  "bump k [] = [(k, 1)]"
| "bump k ((k', n) # rest) = (if k = k' then (k', n + 1) # rest else (k', n) # bump k rest)"

section \<open>PDF files and their annotations\<close>

text \<open>
  The scripts see a PDF through the PDF library. A path of the file system holds
  nothing, a file that the library cannot open, or a PDF, which is its list of pages;
  what a page is depends on what a script reads from it. \<open>fitz.open\<close> raises on the
  first two. Once \<open>fitz.open\<close> has succeeded, the reads a script makes on the
  document, its pages and their annotations succeed.
\<close>

datatype 'pg pdf_file = Pdf "'pg list" | NotPdf

type_synonym 'pg file_system = "string \<Rightarrow> 'pg pdf_file option"

definition path_exists :: "'pg file_system \<Rightarrow> string \<Rightarrow> bool" where
  "path_exists fs path = (fs path \<noteq> None)"

definition fitz_open :: "'pg file_system \<Rightarrow> string \<Rightarrow> py_error + 'pg list" where
  "fitz_open fs path =
     (case fs path of
        None \<Rightarrow> Inl FileNotFoundError
      | Some NotPdf \<Rightarrow> Inl LibraryError
      | Some (Pdf pages) \<Rightarrow> Inr pages)"

text \<open>
  An annotation, with the attributes the scripts read. \<open>type\<close> is the pair of the
  numeric code and the name; \<open>colors\<close>, \<open>border\<close> and \<open>info\<close> are dictionaries;
  \<open>opacity\<close>, \<open>fontsize\<close> and \<open>fontname\<close> are read behind \<open>hasattr\<close> and may be absent.
\<close>

type_synonym rect = "rat \<times> rat \<times> rat \<times> rat"

record annot =
  annot_type :: "int \<times> string"
  annot_content :: string
  annot_rect :: rect
  annot_page :: nat
  annot_flags :: int
  annot_line_ends :: "(int \<times> int) option"
  annot_border :: "(string \<times> rat) list"
  annot_colors :: "(string \<times> rat list) list"
  annot_info :: "(string \<times> string) list"
  annot_opacity :: "rat option"
  annot_fontsize :: "rat option"
  annot_fontname :: "string option"

type_synonym annot_page = "annot list"

section \<open>copy\_pdf\_annotations.py: the page specification\<close>

text \<open>
  One round of the loop of \<open>parse_page_specification\<close>: the pages one component adds,
  or the \<open>ValueError\<close> it raises. A failing \<open>int()\<close> is caught and raised again as
  "Invalid range format" or "Invalid page number"; the function's own errors pass
  through the handler unchanged. Page indices are natural numbers: both branches add
  only values \<open>p - 1\<close> with \<open>p \<ge> 1\<close>.
\<close>

definition parse_component :: "string \<Rightarrow> py_error + nat fset" where
  "parse_component spec0 =
     (let spec = py_strip spec0 in
      if CHR ''-'' \<in> set spec then
        (case py_split_once CHR ''-'' spec of (start_str, end_str) \<Rightarrow>
           (case py_int (py_strip start_str) of
              None \<Rightarrow> Inl (ValueError (InvalidRangeFormat spec))
            | Some start \<Rightarrow>
                (case py_int (py_strip end_str) of
                   None \<Rightarrow> Inl (ValueError (InvalidRangeFormat spec))
                 | Some end \<Rightarrow>
                     if start < 1 \<or> end < 1 then Inl (ValueError (RangeBelowOne start end))
                     else if start > end then Inl (ValueError (RangeStartAfterEnd start end))
                     else Inr (fset_of_list [nat (start - 1) ..< nat end]))))
      else
        (case py_int (py_strip spec) of
           None \<Rightarrow> Inl (ValueError (InvalidPageNumber spec))
         | Some page \<Rightarrow>
             if page < 1 then Inl (ValueError (PageBelowOne page))
             else Inr {|nat (page - 1)|}))"

fun parse_components :: "string list \<Rightarrow> nat fset \<Rightarrow> py_error + nat fset" where
  "parse_components [] pages = Inr pages"
| "parse_components (spec # specs) pages =
     (case parse_component spec of
        Inl e \<Rightarrow> Inl e
      | Inr new \<Rightarrow> parse_components specs (pages |\<union>| new))"

definition parse_page_specification :: "string \<Rightarrow> py_error + nat fset" where
  "parse_page_specification pages_str =
     (if pages_str = [] \<or> py_strip pages_str = [] then Inl (ValueError SpecificationEmpty)
      else parse_components (py_split CHR '','' pages_str) {||})"

subsection \<open>The page specification as the documentation describes it\<close>

text \<open>
  The definitions of this subsection do not come from the code. They say what a page
  specification is in the words of the documentation: a comma-separated list of
  1-based page numbers and ranges \<open>a-b\<close>, written in decimal, and the zero-based
  pages each of them covers.
\<close>

datatype page_item = Single nat | Range nat nat

text \<open>Decimal notation without leading zeros, and the written form of a specification.\<close>

definition digit_char :: "nat \<Rightarrow> char" where
  "digit_char d = char_of (48 + d)"

function show_nat :: "nat \<Rightarrow> string" where
  "show_nat n = (if n < 10 then [digit_char n] else show_nat (n div 10) @ [digit_char (n mod 10)])"
  by pat_completeness auto
termination
  by (relation "measure id") auto

declare show_nat.simps [simp del]

fun render_item :: "page_item \<Rightarrow> string" where
  "render_item (Single p) = show_nat p"
| "render_item (Range a b) = show_nat a @ CHR ''-'' # show_nat b"

fun render_items :: "page_item list \<Rightarrow> string" where
  "render_items [] = []"
| "render_items [i] = render_item i"
| "render_items (i # j # js) = render_item i @ CHR '','' # render_items (j # js)"

text \<open>An item is well formed when its numbers are 1-based and a range is not reversed.\<close>

fun item_ok :: "page_item \<Rightarrow> bool" where
  "item_ok (Single p) = (1 \<le> p)"
| "item_ok (Range a b) = (1 \<le> a \<and> a \<le> b)"

fun item_pages :: "page_item \<Rightarrow> nat set" where
  "item_pages (Single p) = {p - 1}"
| "item_pages (Range a b) = {a - 1 .. b - 1}"

text \<open>
  What one component of an arbitrary string says, numbers being read as Python's
  \<open>int()\<close> reads them: a page number, a range (split at the first \<open>-\<close>), or nothing
  numeric.
\<close>

datatype reading = NotNumeric | PageNo int | PageRange int int

definition component_reading :: "string \<Rightarrow> reading" where
  "component_reading c =
     (let t = py_strip c in
      if CHR ''-'' \<in> set t then
        (case py_split_once CHR ''-'' t of (l, r) \<Rightarrow>
           (case py_int l of None \<Rightarrow> NotNumeric
            | Some a \<Rightarrow> (case py_int r of None \<Rightarrow> NotNumeric | Some b \<Rightarrow> PageRange a b)))
      else (case py_int t of None \<Rightarrow> NotNumeric | Some p \<Rightarrow> PageNo p))"

fun reading_ok :: "reading \<Rightarrow> bool" where
  "reading_ok NotNumeric = False"
| "reading_ok (PageNo p) = (1 \<le> p)"
| "reading_ok (PageRange a b) = (1 \<le> a \<and> a \<le> b)"

fun reading_pages :: "reading \<Rightarrow> nat set" where
  "reading_pages NotNumeric = {}"
| "reading_pages (PageNo p) = {nat (p - 1)}"
| "reading_pages (PageRange a b) = {nat (a - 1) .. nat (b - 1)}"

text \<open>A character of a decimal numeral: a digit, so neither whitespace nor a separator.\<close>

definition plain_digit :: "char \<Rightarrow> bool" where
  "plain_digit c = (is_digit c \<and> \<not> py_isspace c \<and> c \<noteq> CHR '','' \<and> c \<noteq> CHR ''-'')"

text \<open>The value of a digit string read from the left, starting from \<open>acc\<close>.\<close>

definition dec_value :: "nat \<Rightarrow> string \<Rightarrow> nat" where
  "dec_value acc s = foldl (\<lambda>a c. 10 * a + digit_val c) acc s"

section \<open>copy\_pdf\_annotations.py: extraction\<close>

text \<open>The settings at the top of the script.\<close>

definition SHOW_PROGRESS :: bool where
  "SHOW_PROGRESS = True"

definition BATCH_SIZE :: nat where
  "BATCH_SIZE = 100"

definition MEMORY_EFFICIENT :: bool where
  "MEMORY_EFFICIENT = True"

text \<open>
  The dictionary \<open>_extract_annotation_data\<close> builds. The last three keys exist only
  for text and free-text annotations.
\<close>

record annot_dict =
  d_type :: "int \<times> string"
  d_content :: string
  d_rect :: rect
  d_page :: nat
  d_flags :: int
  d_line_ends :: "(int \<times> int) option"
  d_border :: "(string \<times> rat) list"
  d_colors :: "(string \<times> rat list) list"
  d_author :: string
  d_subject :: string
  d_opacity :: rat
  d_fontsize :: "rat option"
  d_fontname :: "string option"
  d_text_color :: "rat list option"

definition extract_annotation_data :: "annot \<Rightarrow> string \<Rightarrow> annot_dict" where
  "extract_annotation_data a annot_type_str =
     (let is_text = (py_lower annot_type_str \<in> set [''text'', ''freetext'']) in
      \<lparr>d_type = annot_type a,
       d_content = annot_content a,
       d_rect = annot_rect a,
       d_page = annot_page a,
       d_flags = annot_flags a,
       d_line_ends = annot_line_ends a,
       d_border = annot_border a,
       d_colors = annot_colors a,
       d_author = dict_get (annot_info a) ''title'' [],
       d_subject = dict_get (annot_info a) ''subject'' [],
       d_opacity = (case annot_opacity a of None \<Rightarrow> 1 | Some x \<Rightarrow> x),
       d_fontsize =
         (if is_text then Some (case annot_fontsize a of None \<Rightarrow> 12 | Some x \<Rightarrow> x) else None),
       d_fontname =
         (if is_text
          then Some (case annot_fontname a of None \<Rightarrow> ''Helvetica'' | Some x \<Rightarrow> x) else None),
       d_text_color =
         (if is_text
          then Some (if annot_colors a \<noteq> [] then dict_get (annot_colors a) ''stroke'' [0, 0, 0]
                     else [0, 0, 0])
          else None)\<rparr>)"

text \<open>
  The loop over \<open>page.annots()\<close>, the same in both extraction functions: an
  annotation is appended when the lower-cased name of its type is not \<open>highlight\<close>.
\<close>

fun collect_annotations :: "annot list \<Rightarrow> annot_dict list \<Rightarrow> annot_dict list" where
  "collect_annotations [] annotations = annotations"
| "collect_annotations (a # rest) annotations =
     (let annot_type_str = snd (annot_type a) in
      if py_lower annot_type_str \<noteq> ''highlight''
      then collect_annotations rest (annotations @ [extract_annotation_data a annot_type_str])
      else collect_annotations rest annotations)"

text \<open>
  \<open>annotations_by_page\<close> is a dictionary from page numbers to lists, kept as the list
  of its items in insertion order; \<open>d[k] = v\<close> is \<open>AList.update\<close>. The loop over the
  pages of one open document: \<open>doc[page_num]\<close> raises \<open>IndexError\<close> past the last page.
\<close>

type_synonym annotations_by_page = "(nat \<times> annot_dict list) list"

fun extract_pages ::
  "annot_page list \<Rightarrow> nat list \<Rightarrow> annotations_by_page \<Rightarrow> py_error + annotations_by_page" where
  "extract_pages doc [] by_page = Inr by_page"
| "extract_pages doc (page_num # rest) by_page =
     (if page_num < length doc then
        (let page = doc ! page_num;
             annotations = collect_annotations page [] in
         extract_pages doc rest
           (if annotations \<noteq> [] then AList.update page_num annotations by_page else by_page))
      else Inl IndexError)"

text \<open>
  Which pages are processed: all of them without a filter, otherwise the filter's
  pages that exist, in ascending order.
\<close>

definition pages_to_process :: "nat \<Rightarrow> nat fset option \<Rightarrow> nat list" where
  "pages_to_process total_pages page_filter =
     (case page_filter of
        None \<Rightarrow> [0 ..< total_pages]
      | Some pf \<Rightarrow> filter (\<lambda>p. p < total_pages) (sorted_list_of_fset pf))"

text \<open>
  The \<open>try\<close> block of \<open>_get_annotations_standard\<close>, and the function with its handler:
  any exception is answered with the empty dictionary.
\<close>

definition get_annotations_standard_body ::
  "annot_page file_system \<Rightarrow> string \<Rightarrow> nat fset option \<Rightarrow> py_error + annotations_by_page" where
  "get_annotations_standard_body fs pdf_path page_filter =
     (case fitz_open fs pdf_path of
        Inl e \<Rightarrow> Inl e
      | Inr doc \<Rightarrow> extract_pages doc (pages_to_process (length doc) page_filter) [])"

definition get_annotations_standard ::
  "annot_page file_system \<Rightarrow> string \<Rightarrow> nat fset option \<Rightarrow> annotations_by_page" where
  "get_annotations_standard fs pdf_path page_filter =
     (case get_annotations_standard_body fs pdf_path page_filter of
        Inl e \<Rightarrow> []
      | Inr by_page \<Rightarrow> by_page)"

text \<open>
  The memory-efficient variant walks \<open>range(0, len(pages_to_process), batch_size)\<close>
  and opens the document anew for each batch \<open>pages_to_process[batch_start:batch_end]\<close>.
\<close>

function extract_batches ::
  "annot_page file_system \<Rightarrow> string \<Rightarrow> nat list \<Rightarrow> nat \<Rightarrow> nat \<Rightarrow> annotations_by_page \<Rightarrow>
   py_error + annotations_by_page" where
  "extract_batches fs pdf_path pages batch_size batch_start by_page =
     (if batch_size = 0 \<or> batch_start \<ge> length pages then Inr by_page
      else
        (let batch_end = min (batch_start + batch_size) (length pages);
             batch_pages = take (batch_end - batch_start) (drop batch_start pages) in
         case fitz_open fs pdf_path of
           Inl e \<Rightarrow> Inl e
         | Inr doc \<Rightarrow>
             (case extract_pages doc batch_pages by_page of
                Inl e \<Rightarrow> Inl e
              | Inr by_page' \<Rightarrow>
                  extract_batches fs pdf_path pages batch_size (batch_start + batch_size) by_page')))"
  by pat_completeness auto
termination
  by (relation "measure (\<lambda>(fs, pdf_path, pages, batch_size, batch_start, by_page).
        length pages - batch_start)") auto

declare extract_batches.simps [simp del]

definition get_annotations_memory_efficient_body ::
  "annot_page file_system \<Rightarrow> string \<Rightarrow> nat fset option \<Rightarrow> py_error + annotations_by_page" where
  "get_annotations_memory_efficient_body fs pdf_path page_filter =
     (case fitz_open fs pdf_path of
        Inl e \<Rightarrow> Inl e
      | Inr doc_info \<Rightarrow>
          (let total_pages = length doc_info;
               pages = pages_to_process total_pages page_filter;
               batch_size = max 1 (min 10 (length pages div 4)) in
           extract_batches fs pdf_path pages batch_size 0 []))"

definition get_annotations_memory_efficient ::
  "annot_page file_system \<Rightarrow> string \<Rightarrow> nat fset option \<Rightarrow> annotations_by_page" where
  "get_annotations_memory_efficient fs pdf_path page_filter =
     (case get_annotations_memory_efficient_body fs pdf_path page_filter of
        Inl e \<Rightarrow> []
      | Inr by_page \<Rightarrow> by_page)"

definition get_non_highlight_annotations ::
  "annot_page file_system \<Rightarrow> string \<Rightarrow> nat fset option \<Rightarrow> annotations_by_page" where
  "get_non_highlight_annotations fs pdf_path page_filter =
     (if MEMORY_EFFICIENT then get_annotations_memory_efficient fs pdf_path page_filter
      else get_annotations_standard fs pdf_path page_filter)"

text \<open>Reading the result: the entries stored for a page (none when the page is no key).\<close>

definition page_entries :: "annotations_by_page \<Rightarrow> nat \<Rightarrow> annot_dict list" where
  "page_entries by_page page_num = (case map_of by_page page_num of None \<Rightarrow> [] | Some l \<Rightarrow> l)"

text \<open>The annotations of a page that are not highlights, compared without regard to case.\<close>

definition non_highlight :: "annot \<Rightarrow> bool" where
  "non_highlight a = (py_lower (snd (annot_type a)) \<noteq> ''highlight'')"

text \<open>
  For the proofs: what the loop over the annotations of a page collects, written with
  \<open>filter\<close> and \<open>map\<close>.
\<close>

definition kept :: "annot_page \<Rightarrow> annot_dict list" where
  "kept page = map (\<lambda>a. extract_annotation_data a (snd (annot_type a))) (filter non_highlight page)"

section \<open>copy\_pdf\_annotations.py: copying and the main program\<close>

text \<open>
  Two calls into the PDF library can fail on a document that is open, and how they
  behave is the library's business: \<open>page.add_annotation(type, rect)\<close>, which returns
  the new annotation of the page or raises, and \<open>doc.save(output_path)\<close>, which the
  library may refuse depending on the path the document was opened from and the path
  it is saved to. Both are parameters of the model. The setters that follow
  \<open>add_annotation\<close> assign the attribute they name.
\<close>

record pdf_library =
  lib_add_annotation :: "int \<Rightarrow> rect \<Rightarrow> annot option"
  lib_save_refused :: "string \<Rightarrow> string \<Rightarrow> bool"

text \<open>
  \<open>_copy_single_annotation\<close>: whether the copy succeeded, and the page afterwards. An
  exception is caught and answered with \<open>False\<close>.
\<close>

definition copy_single_annotation ::
  "pdf_library \<Rightarrow> annot_page \<Rightarrow> annot_dict \<Rightarrow> nat \<Rightarrow> bool \<times> annot_page" where
  "copy_single_annotation L page annot_data page_num =
     (let annot_type_num = fst (d_type annot_data); rect = d_rect annot_data in
      case lib_add_annotation L annot_type_num rect of
        None \<Rightarrow> (False, page)
      | Some new_annot \<Rightarrow>
          (let a1 = new_annot\<lparr>annot_content := d_content annot_data\<rparr>;
               a2 = a1\<lparr>annot_flags := d_flags annot_data\<rparr>;
               a3 = (if d_colors annot_data \<noteq> [] then
                       (let s = (case map_of (d_colors annot_data) ''stroke'' of
                                   None \<Rightarrow> a2
                                 | Some c \<Rightarrow> a2\<lparr>annot_colors := AList.update ''stroke'' c (annot_colors a2)\<rparr>)
                        in (case map_of (d_colors annot_data) ''fill'' of
                              None \<Rightarrow> s
                            | Some c \<Rightarrow> s\<lparr>annot_colors := AList.update ''fill'' c (annot_colors s)\<rparr>))
                     else a2);
               a4 = (if d_border annot_data \<noteq> [] then a3\<lparr>annot_border := d_border annot_data\<rparr> else a3);
               a5 = (case d_line_ends annot_data of
                       None \<Rightarrow> a4
                     | Some (e0, e1) \<Rightarrow> a4\<lparr>annot_line_ends := Some (e0, e1)\<rparr>);
               a6 = a5\<lparr>annot_opacity := Some (d_opacity annot_data)\<rparr>;
               a7 = a6\<lparr>annot_info :=
                       AList.update ''subject'' (d_subject annot_data)
                         (AList.update ''title'' (d_author annot_data) (annot_info a6))\<rparr>;
               annot_type_str = py_lower (snd (d_type annot_data));
               a8 = (if annot_type_str \<in> set [''text'', ''freetext''] then
                       (case d_fontsize annot_data of
                          None \<Rightarrow> a7
                        | Some fontsize \<Rightarrow>
                            (let f1 = a7\<lparr>annot_fontsize := Some fontsize\<rparr>;
                                 f2 = (case d_fontname annot_data of
                                         None \<Rightarrow> f1
                                       | Some fontname \<Rightarrow> f1\<lparr>annot_fontname := Some fontname\<rparr>)
                             in (case d_text_color annot_data of
                                   None \<Rightarrow> f2
                                 | Some c \<Rightarrow>
                                     f2\<lparr>annot_colors := AList.update ''stroke'' c (annot_colors f2)\<rparr>)))
                     else a7)
           in (True, page @ [a8])))"

text \<open>The inner loop of the standard processing: the annotations of one entry.\<close>

fun copy_page_annotations ::
  "pdf_library \<Rightarrow> annot_page \<Rightarrow> annot_dict list \<Rightarrow> nat \<Rightarrow> nat \<Rightarrow> annot_page \<times> nat" where
  "copy_page_annotations L page [] page_num total_copied = (page, total_copied)"
| "copy_page_annotations L page (annot_data # rest) page_num total_copied =
     (case copy_single_annotation L page annot_data page_num of
        (ok, page') \<Rightarrow>
          copy_page_annotations L page' rest page_num
            (if ok then total_copied + 1 else total_copied))"

text \<open>The outer loop over \<open>annotations_by_page.items()\<close>; a page the target lacks is skipped.\<close>

fun copy_items ::
  "pdf_library \<Rightarrow> annot_page list \<Rightarrow> annotations_by_page \<Rightarrow> nat \<Rightarrow> annot_page list \<times> nat" where
  "copy_items L doc [] total_copied = (doc, total_copied)"
| "copy_items L doc ((page_num, annotations) # rest) total_copied =
     (if page_num \<ge> length doc then copy_items L doc rest total_copied
      else
        (case copy_page_annotations L (doc ! page_num) annotations page_num total_copied of
           (page', total_copied') \<Rightarrow>
             copy_items L (doc[page_num := page']) rest total_copied'))"

text \<open>
  \<open>_copy_annotations_batched\<close>: the annotations are flattened to pairs with their
  page number and walked in slices of \<open>BATCH_SIZE\<close>.
\<close>

fun copy_batch ::
  "pdf_library \<Rightarrow> annot_page list \<Rightarrow> (nat \<times> annot_dict) list \<Rightarrow> nat \<Rightarrow> annot_page list \<times> nat" where
  "copy_batch L doc [] total_copied = (doc, total_copied)"
| "copy_batch L doc ((page_num, annot_data) # rest) total_copied =
     (if page_num \<ge> length doc then copy_batch L doc rest total_copied
      else
        (case copy_single_annotation L (doc ! page_num) annot_data page_num of
           (ok, page') \<Rightarrow>
             copy_batch L (doc[page_num := page']) rest
               (if ok then total_copied + 1 else total_copied)))"

function copy_batches ::
  "pdf_library \<Rightarrow> annot_page list \<Rightarrow> (nat \<times> annot_dict) list \<Rightarrow> nat \<Rightarrow> nat \<Rightarrow>
   annot_page list \<times> nat" where
  "copy_batches L doc all_annotations batch_start total_copied =
     (if BATCH_SIZE = 0 \<or> batch_start \<ge> length all_annotations then (doc, total_copied)
      else
        (let batch_end = min (batch_start + BATCH_SIZE) (length all_annotations);
             batch = take (batch_end - batch_start) (drop batch_start all_annotations) in
         case copy_batch L doc batch total_copied of
           (doc', total_copied') \<Rightarrow>
             copy_batches L doc' all_annotations (batch_start + BATCH_SIZE) total_copied'))"
  by pat_completeness auto
termination
  by (relation "measure (\<lambda>(L, doc, all_annotations, batch_start, total_copied).
        length all_annotations - batch_start)") (auto simp: BATCH_SIZE_def)

declare copy_batches.simps [simp del]

definition copy_annotations_batched ::
  "pdf_library \<Rightarrow> annot_page list \<Rightarrow> annotations_by_page \<Rightarrow> nat \<Rightarrow> annot_page list \<times> nat" where
  "copy_annotations_batched L doc by_page total_annotations =
     (let all_annotations =
            concat (map (\<lambda>(page_num, annotations). map (Pair page_num) annotations) by_page)
      in copy_batches L doc all_annotations 0 0)"

text \<open>
  \<open>copy_annotations_to_pdf\<close>: the number it reports as copied (\<open>None\<close> when the handler
  reports an error instead) and the file system afterwards. The target is opened,
  changed in memory, and saved to \<open>output_path\<close>.
\<close>

definition copy_annotations_to_pdf ::
  "pdf_library \<Rightarrow> annot_page file_system \<Rightarrow> string \<Rightarrow> annotations_by_page \<Rightarrow> string \<Rightarrow>
   nat option \<times> annot_page file_system" where
  "copy_annotations_to_pdf L fs target_pdf_path by_page output_path =
     (case fitz_open fs target_pdf_path of
        Inl e \<Rightarrow> (None, fs)
      | Inr doc \<Rightarrow>
          (let total_annotations = sum_list (map (\<lambda>(page_num, annotations). length annotations) by_page);
               copied = (if BATCH_SIZE > 0 \<and> total_annotations > BATCH_SIZE
                         then copy_annotations_batched L doc by_page total_annotations
                         else copy_items L doc by_page 0)
           in (case copied of
                 (doc', total_copied) \<Rightarrow>
                   if lib_save_refused L target_pdf_path output_path then (None, fs)
                   else (Some total_copied, fs(output_path \<mapsto> Pdf doc')))))"

text \<open>\<open>validate_pages_exist\<close>: a failure to open is raised as \<open>FileNotFoundError\<close>.\<close>

definition validate_pages_exist ::
  "annot_page file_system \<Rightarrow> string \<Rightarrow> nat fset \<Rightarrow> py_error + nat fset" where
  "validate_pages_exist fs pdf_path page_filter =
     (case fitz_open fs pdf_path of
        Inl e \<Rightarrow> Inl FileNotFoundError
      | Inr doc \<Rightarrow>
          (let total_pages = length doc;
               valid_pages = ffilter (\<lambda>p. p < total_pages) page_filter in
           if valid_pages = {||} then
             (if page_filter = {||} then Inl (ValueError MaxOfEmptySequence)
              else Inl (ValueError (NoValidPages total_pages (fMax ((\<lambda>p. p + 1) |`| page_filter)))))
           else Inr valid_pages))"

text \<open>
  \<open>main\<close>, with the three paths and the page specification it takes from the
  configuration variables or from the command line: how the run ends, and the file
  system afterwards. \<open>sys.exit(n)\<close> is \<open>Exit n\<close>; an exception that nothing catches
  ends the run as \<open>Uncaught\<close>.
\<close>

datatype run_end = Exit nat | Uncaught py_error | Finished

definition main ::
  "pdf_library \<Rightarrow> annot_page file_system \<Rightarrow> string \<Rightarrow> string \<Rightarrow> string \<Rightarrow> string option \<Rightarrow>
   run_end \<times> annot_page file_system" where
  "main L fs source_pdf target_pdf output_pdf pages_spec =
     (if \<not> path_exists fs source_pdf then (Exit 1, fs)
      else if \<not> path_exists fs target_pdf then (Exit 1, fs)
      else
        (let parsed =
               (case pages_spec of
                  None \<Rightarrow> Inr None
                | Some spec \<Rightarrow>
                    if spec = [] then Inr None
                    else
                      (case parse_page_specification spec of
                         Inl e \<Rightarrow> Inl e
                       | Inr pf \<Rightarrow>
                           (case validate_pages_exist fs source_pdf pf of
                              Inl e \<Rightarrow> Inl e
                            | Inr pf1 \<Rightarrow>
                                (case validate_pages_exist fs target_pdf pf1 of
                                   Inl e \<Rightarrow> Inl e
                                 | Inr pf2 \<Rightarrow> Inr (Some pf2)))))
         in case parsed of
              Inl (ValueError v) \<Rightarrow> (Exit 1, fs)
            | Inl e \<Rightarrow> (Uncaught e, fs)
            | Inr page_filter \<Rightarrow>
                (let annotations = get_non_highlight_annotations fs source_pdf page_filter in
                 if annotations = [] then (Exit 0, fs)
                 else (Finished, snd (copy_annotations_to_pdf L fs target_pdf annotations output_pdf)))))"

section \<open>debug\_annotations.py\<close>

text \<open>
  The script prints its findings. A printed line is a value of \<open>debug_line\<close> that
  carries the values the line is formatted from; the page number a line shows is
  \<open>page_num + 1\<close>.
\<close>

datatype verdict = EXCLUDED | INCLUDED

datatype debug_line =
    FileNotFoundLine string
  | PdfLine string
  | TotalPagesLine nat
  | RuleLine
  | PageLine nat
  | NoAnnotationsOnPageLine
  | FoundAnnotationLine
  | TypeLine string int
  | ContentLine string
  | PositionLine rect
  | SizeLine rect
  | VerdictLine verdict
  | BlankLine
  | PageTotalLine nat nat
  | SummaryLine
  | TotalFoundLine nat
  | NonHighlightLine int
  | TypesFoundLine
  | TypeCountLine string nat verdict
  | NothingDetectedLines
  | ErrorReadingLine

text \<open>
  The counters \<open>total_annotations\<close> and \<open>annotation_types\<close> of the function, and
  the lines printed so far.
\<close>

record debug_state =
  dbg_total :: nat
  dbg_types :: "(string \<times> nat) list"
  dbg_printed :: "debug_line list"

text \<open>
  The body of the loop over the annotations of a page; the first component counts
  \<open>page_annotations\<close>.
\<close>

definition debug_annot :: "nat \<times> debug_state \<Rightarrow> annot \<Rightarrow> nat \<times> debug_state" where
  "debug_annot acc annot =
     (case acc of (page_annotations, st) \<Rightarrow>
        (let annot_type_num = fst (annot_type annot);
             annot_type_str = snd (annot_type annot);
             content = annot_content annot;
             rect = annot_rect annot in
         (page_annotations + 1,
          \<lparr>dbg_total = dbg_total st + 1,
           dbg_types = bump annot_type_str (dbg_types st),
           dbg_printed = dbg_printed st @
             [FoundAnnotationLine, TypeLine annot_type_str annot_type_num, ContentLine content,
              PositionLine rect, SizeLine rect,
              VerdictLine (if py_lower annot_type_str = ''highlight'' then EXCLUDED else INCLUDED),
              BlankLine]\<rparr>)))"

text \<open>The body of the loop over \<open>range(len(doc))\<close>.\<close>

definition debug_page :: "annot_page list \<Rightarrow> debug_state \<Rightarrow> nat \<Rightarrow> debug_state" where
  "debug_page doc st page_num =
     (let page = doc ! page_num;
          st1 = st\<lparr>dbg_printed := dbg_printed st @ [PageLine (page_num + 1)]\<rparr>;
          annot_list = page in
      if annot_list = [] then st1\<lparr>dbg_printed := dbg_printed st1 @ [NoAnnotationsOnPageLine]\<rparr>
      else
        (case foldl debug_annot (0, st1) annot_list of (page_annotations, st2) \<Rightarrow>
           st2\<lparr>dbg_printed := dbg_printed st2 @ [PageTotalLine (page_num + 1) page_annotations]\<rparr>))"

definition debug_summary :: "debug_state \<Rightarrow> debug_line list" where
  "debug_summary st =
     [RuleLine, SummaryLine, TotalFoundLine (dbg_total st),
      NonHighlightLine (int (dbg_total st) - int (dict_get (dbg_types st) ''Highlight'' 0))]
     @ (if dbg_types st \<noteq> []
        then TypesFoundLine #
             map (\<lambda>(annot_type_str, count).
                    TypeCountLine annot_type_str count
                      (if py_lower annot_type_str = ''highlight'' then EXCLUDED else INCLUDED))
               (dbg_types st)
        else [NothingDetectedLines])"

text \<open>
  The function: the value it returns and the lines it prints. A path that does not
  exist is answered before the \<open>try\<close>; an exception in the \<open>try\<close> block is answered by
  the handler, after whatever had been printed.
\<close>

definition debug_pdf_annotations :: "annot_page file_system \<Rightarrow> string \<Rightarrow> bool \<times> debug_line list" where
  "debug_pdf_annotations fs pdf_path =
     (if \<not> path_exists fs pdf_path then (False, [FileNotFoundLine pdf_path])
      else
        (case fitz_open fs pdf_path of
           Inl e \<Rightarrow> (False, [ErrorReadingLine])
         | Inr doc \<Rightarrow>
             (let st0 = \<lparr>dbg_total = 0, dbg_types = [],
                         dbg_printed = [PdfLine pdf_path, TotalPagesLine (length doc), RuleLine]\<rparr>;
                  st = foldl (debug_page doc) st0 [0 ..< length doc] in
              (dbg_total st > 0, dbg_printed st @ debug_summary st))))"

text \<open>
  Reading the printed lines: the pages that were announced, and the type and verdict
  lines, which are the report of an annotation.
\<close>

fun is_report_line :: "debug_line \<Rightarrow> bool" where
  "is_report_line (TypeLine t n) = True"
| "is_report_line (VerdictLine v) = True"
| "is_report_line l = False"

fun is_page_line :: "debug_line \<Rightarrow> bool" where
  "is_page_line (PageLine n) = True"
| "is_page_line l = False"

definition annot_report :: "annot \<Rightarrow> debug_line list" where
  "annot_report a =
     [TypeLine (snd (annot_type a)) (fst (annot_type a)),
      VerdictLine (if py_lower (snd (annot_type a)) = ''highlight'' then EXCLUDED else INCLUDED)]"

subsection \<open>Example documents\<close>

text \<open>
  A source document of three pages: a highlight and a free-text note on the first, a
  highlight whose type name is written in upper case on the second, and a square on
  the third. The file system holds it, a target of two empty pages, and a file that
  is not a PDF.
\<close>

definition ex_annot :: "int \<times> string \<Rightarrow> string \<Rightarrow> annot" where
  "ex_annot t c =
     \<lparr>annot_type = t, annot_content = c, annot_rect = (10, 20, 110, 40), annot_page = 0,
      annot_flags = 4, annot_line_ends = None, annot_border = [(''width'', 1)],
      annot_colors = [(''stroke'', [1, 0, 0])], annot_info = [(''title'', ''reviewer'')],
      annot_opacity = Some 1, annot_fontsize = None, annot_fontname = None\<rparr>"

definition ex_source :: "annot_page list" where
  "ex_source =
     [[ex_annot (8, ''Highlight'') ''marked'', ex_annot (2, ''FreeText'') ''see above''],
      [ex_annot (8, ''HIGHLIGHT'') []],
      [ex_annot (4, ''Square'') ''box'']]"

definition ex_target :: "annot_page list" where
  "ex_target = [[], []]"

definition ex_fs :: "annot_page file_system" where
  "ex_fs = [''source.pdf'' \<mapsto> Pdf ex_source, ''target.pdf'' \<mapsto> Pdf ex_target,
            ''broken.pdf'' \<mapsto> NotPdf]"

text \<open>
  A library that creates an annotation of the requested type and rectangle, and that
  refuses, as the PDF library does, to save a document over the file it was opened
  from; and one whose \<open>add_annotation\<close> always raises.
\<close>

definition ex_library :: pdf_library where
  "ex_library =
     \<lparr>lib_add_annotation = (\<lambda>annot_type_num rect.
         Some \<lparr>annot_type = (annot_type_num, ''''), annot_content = [], annot_rect = rect,
               annot_page = 0, annot_flags = 0, annot_line_ends = None, annot_border = [],
               annot_colors = [], annot_info = [], annot_opacity = None,
               annot_fontsize = None, annot_fontname = None\<rparr>),
      lib_save_refused = (\<lambda>opened_from output_path. opened_from = output_path)\<rparr>"

definition ex_library_failing :: pdf_library where
  "ex_library_failing =
     \<lparr>lib_add_annotation = (\<lambda>annot_type_num rect. None),
      lib_save_refused = (\<lambda>opened_from output_path. opened_from = output_path)\<rparr>"

section \<open>detect\_flattened\_annotations.py: contour classification\<close>

text \<open>
  A contour is an object of the image library. The script reads two things from it:
  \<open>cv2.contourArea(contour)\<close> and \<open>cv2.boundingRect(contour)\<close>, a tuple
  \<open>(x, y, w, h)\<close> of integers. The record holds what those two calls return.
\<close>

record contour =
  contourArea :: rat
  boundingRect :: "int \<times> int \<times> int \<times> int"

record flat_annotation =
  fa_type :: string
  fa_bbox :: "int \<times> int \<times> int \<times> int"
  fa_area :: rat
  fa_aspect_ratio :: rat

text \<open>The \<open>if / elif / elif / else\<close> chain of \<open>analyze_contours\<close>, in the source's order.\<close>

definition classify_aspect :: "rat \<Rightarrow> string" where
  "classify_aspect aspect_ratio =
     (if aspect_ratio > 5 \<or> aspect_ratio < 2 / 10 then ''line/arrow''
      else if 8 / 10 \<le> aspect_ratio \<and> aspect_ratio \<le> 12 / 10 then ''square/circle''
      else if aspect_ratio > 2 then ''text/rectangle''
      else ''rectangle/shape'')"

text \<open>
  The loop body: \<open>continue\<close> on a small area, otherwise \<open>w / h\<close> (Python's true
  division of two integers, which raises \<open>ZeroDivisionError\<close> on \<open>h = 0\<close>) and
  the appended dictionary.
\<close>

fun analyze_contours_loop ::
  "contour list \<Rightarrow> rat \<Rightarrow> flat_annotation list \<Rightarrow> py_error + flat_annotation list" where
  "analyze_contours_loop [] min_area annotations = Inr annotations"
| "analyze_contours_loop (c # cs) min_area annotations =
     (let area = contourArea c in
      if area < min_area then analyze_contours_loop cs min_area annotations
      else
        (case boundingRect c of (x, y, w, h) \<Rightarrow>
           if h = 0 then Inl ZeroDivisionError
           else
             (let aspect_ratio = rat_of_int w / rat_of_int h in
              analyze_contours_loop cs min_area
                (annotations @
                   [\<lparr>fa_type = classify_aspect aspect_ratio, fa_bbox = (x, y, w, h),
                     fa_area = area, fa_aspect_ratio = aspect_ratio\<rparr>]))))"

definition analyze_contours :: "contour list \<Rightarrow> rat \<Rightarrow> py_error + flat_annotation list" where
  "analyze_contours contours min_area = analyze_contours_loop contours min_area []"

text \<open>The call with the default argument \<open>min_area=100\<close>.\<close>

definition analyze_contours_default :: "contour list \<Rightarrow> py_error + flat_annotation list" where
  "analyze_contours_default contours = analyze_contours contours 100"

text \<open>Reading the bounding rectangle of a contour.\<close>

definition rect_w :: "contour \<Rightarrow> int" where
  "rect_w c = (case boundingRect c of (x, y, w, h) \<Rightarrow> w)"

definition rect_h :: "contour \<Rightarrow> int" where
  "rect_h c = (case boundingRect c of (x, y, w, h) \<Rightarrow> h)"

definition contour_annotation :: "contour \<Rightarrow> flat_annotation" where
  "contour_annotation c =
     \<lparr>fa_type = classify_aspect (rat_of_int (rect_w c) / rat_of_int (rect_h c)),
      fa_bbox = boundingRect c, fa_area = contourArea c,
      fa_aspect_ratio = rat_of_int (rect_w c) / rat_of_int (rect_h c)\<rparr>"

section \<open>detect\_flattened\_annotations.py: the page comparison\<close>

text \<open>
  An image has a width, a height and its pixels; what the pixels are is the image
  libraries' business. The operations of those libraries that the script calls are
  parameters of the model: the resampling behind \<open>Image.resize\<close> (the resized image
  has the requested size), the pixel-wise \<open>ImageChops.difference\<close> (the result covers
  the area both images cover), the conversion to a grey-scale array
  (\<open>np.array\<close> and \<open>cv2.cvtColor\<close> with \<open>COLOR_RGB2GRAY\<close>), \<open>cv2.threshold\<close> and
  \<open>cv2.findContours\<close>. The script calls contours-related functions with the
  constants named below.
\<close>

record 'px image =
  img_width :: nat
  img_height :: nat
  img_pixels :: 'px

datatype threshold_type = THRESH_BINARY

datatype retrieval_mode = RETR_EXTERNAL

datatype approx_method = CHAIN_APPROX_SIMPLE

record ('px, 'g) image_library =
  lib_resample :: "'px image \<Rightarrow> nat \<times> nat \<Rightarrow> 'px"
  lib_difference :: "'px image \<Rightarrow> 'px image \<Rightarrow> 'px"
  lib_to_gray :: "'px image \<Rightarrow> 'g"
  lib_threshold :: "'g \<Rightarrow> nat \<Rightarrow> nat \<Rightarrow> threshold_type \<Rightarrow> 'g"
  lib_find_contours :: "'g \<Rightarrow> retrieval_mode \<Rightarrow> approx_method \<Rightarrow> contour list"

text \<open>\<open>img.size\<close>, \<open>img.resize((w, h))\<close> and \<open>ImageChops.difference(a, b)\<close>.\<close>

definition img_size :: "'px image \<Rightarrow> nat \<times> nat" where
  "img_size img = (img_width img, img_height img)"

definition resize :: "('px, 'g) image_library \<Rightarrow> 'px image \<Rightarrow> nat \<times> nat \<Rightarrow> 'px image" where
  "resize L img new_size =
     \<lparr>img_width = fst new_size, img_height = snd new_size,
      img_pixels = lib_resample L img new_size\<rparr>"

definition difference :: "('px, 'g) image_library \<Rightarrow> 'px image \<Rightarrow> 'px image \<Rightarrow> 'px image" where
  "difference L a b =
     \<lparr>img_width = min (img_width a) (img_width b), img_height = min (img_height a) (img_height b),
      img_pixels = lib_difference L a b\<rparr>"

text \<open>\<open>find_differences\<close> returns the difference image, the contours and the thresholded array.\<close>

definition find_differences ::
  "('px, 'g) image_library \<Rightarrow> 'px image \<Rightarrow> 'px image \<Rightarrow> 'px image \<times> contour list \<times> 'g" where
  "find_differences L original_img annotated_img =
     (let (original_img', annotated_img') =
            (if img_size original_img \<noteq> img_size annotated_img then
               (let min_width = min (img_width original_img) (img_width annotated_img);
                    min_height = min (img_height original_img) (img_height annotated_img) in
                (resize L original_img (min_width, min_height),
                 resize L annotated_img (min_width, min_height)))
             else (original_img, annotated_img));
          diff = difference L original_img' annotated_img';
          gray_diff = lib_to_gray L diff;
          thresh = lib_threshold L gray_diff 30 255 THRESH_BINARY;
          contours = lib_find_contours L thresh RETR_EXTERNAL CHAIN_APPROX_SIMPLE
      in (diff, contours, thresh))"

text \<open>
  For this script a page of a PDF is the image the PDF library renders it to at the
  script's resolution of 150 dpi. \<open>pdf_page_to_image\<close> opens the document for one page.
\<close>

definition pdf_page_to_image :: "'px image file_system \<Rightarrow> string \<Rightarrow> nat \<Rightarrow> py_error + 'px image" where
  "pdf_page_to_image fs pdf_path page_num =
     (case fitz_open fs pdf_path of
        Inl e \<Rightarrow> Inl e
      | Inr doc \<Rightarrow> if page_num < length doc then Inr (doc ! page_num) else Inl IndexError)"

text \<open>
  What the script does for one page: the page number, the three results of
  \<open>find_differences\<close>, the annotations found, and whether the two analysis images
  were saved (they are when there is an annotation).
\<close>

record ('px, 'g) page_report =
  pr_page :: nat
  pr_diff :: "'px image"
  pr_contours :: "contour list"
  pr_thresh :: 'g
  pr_annotations :: "flat_annotation list"
  pr_saved :: bool

text \<open>
  The loop over \<open>range(min_pages)\<close>: the exception that ended it early, if any, the
  running \<open>total_annotations\<close>, and the reports of the pages that were completed.
\<close>

fun detect_pages ::
  "('px, 'g) image_library \<Rightarrow> 'px image file_system \<Rightarrow> string \<Rightarrow> string \<Rightarrow> nat list \<Rightarrow> nat \<Rightarrow>
   ('px, 'g) page_report list \<Rightarrow> py_error option \<times> nat \<times> ('px, 'g) page_report list" where
  "detect_pages L fs original_pdf annotated_pdf [] total_annotations reports =
     (None, total_annotations, reports)"
| "detect_pages L fs original_pdf annotated_pdf (page_num # rest) total_annotations reports =
     (case pdf_page_to_image fs original_pdf page_num of
        Inl e \<Rightarrow> (Some e, total_annotations, reports)
      | Inr original_img \<Rightarrow>
          (case pdf_page_to_image fs annotated_pdf page_num of
             Inl e \<Rightarrow> (Some e, total_annotations, reports)
           | Inr annotated_img \<Rightarrow>
               (case find_differences L original_img annotated_img of
                  (diff_img, contours, thresh) \<Rightarrow>
                    (case analyze_contours_default contours of
                       Inl e \<Rightarrow> (Some e, total_annotations, reports)
                     | Inr annotations \<Rightarrow>
                         detect_pages L fs original_pdf annotated_pdf rest
                           (if annotations \<noteq> [] then total_annotations + length annotations
                            else total_annotations)
                           (reports @
                              [\<lparr>pr_page = page_num, pr_diff = diff_img, pr_contours = contours,
                                pr_thresh = thresh, pr_annotations = annotations,
                                pr_saved = (annotations \<noteq> [])\<rparr>])))))"

text \<open>
  \<open>detect_flattened_annotations\<close>: the value it returns and the reports of the pages
  it completed. Missing files are answered before the \<open>try\<close>, exceptions by the handler.
\<close>

definition detect_flattened_annotations ::
  "('px, 'g) image_library \<Rightarrow> 'px image file_system \<Rightarrow> string \<Rightarrow> string \<Rightarrow>
   bool \<times> ('px, 'g) page_report list" where
  "detect_flattened_annotations L fs original_pdf annotated_pdf =
     (if \<not> path_exists fs original_pdf then (False, [])
      else if \<not> path_exists fs annotated_pdf then (False, [])
      else
        (case fitz_open fs original_pdf of
           Inl e \<Rightarrow> (False, [])
         | Inr orig_doc \<Rightarrow>
             (case fitz_open fs annotated_pdf of
                Inl e \<Rightarrow> (False, [])
              | Inr annot_doc \<Rightarrow>
                  (let orig_pages = length orig_doc;
                       annot_pages = length annot_doc;
                       min_pages = min orig_pages annot_pages in
                   case detect_pages L fs original_pdf annotated_pdf [0 ..< min_pages] 0 [] of
                     (Some e, total_annotations, reports) \<Rightarrow> (False, reports)
                   | (None, total_annotations, reports) \<Rightarrow> (total_annotations > 0, reports)))))"

text \<open>
  For the proofs: the report of a page as \<open>detect_pages\<close> builds it from the two
  rendered pages.
\<close>

definition report_of ::
  "('px, 'g) image_library \<Rightarrow> nat \<Rightarrow> 'px image \<Rightarrow> 'px image \<Rightarrow> ('px, 'g) page_report" where
  "report_of L page_num original_img annotated_img =
     (case find_differences L original_img annotated_img of
        (diff_img, contours, thresh) \<Rightarrow>
          \<lparr>pr_page = page_num, pr_diff = diff_img, pr_contours = contours, pr_thresh = thresh,
           pr_annotations =
             map contour_annotation (filter (\<lambda>c. \<not> contourArea c < 100) contours),
           pr_saved = (filter (\<lambda>c. \<not> contourArea c < 100) contours \<noteq> [])\<rparr>)"

subsection \<open>Example renders\<close>

text \<open>
  Images whose pixels are a list of numbers, and a stand-in for the image libraries
  on them: resampling keeps the pixels, the difference is the absolute difference
  entry by entry, the grey value is the entry itself, the threshold maps an entry
  above the bound to the maximum and the others to 0, and every entry that is not 0
  yields one contour of area 400 with a 40 x 10 bounding rectangle.
\<close>

definition ex_image_library :: "(nat list, nat list) image_library" where
  "ex_image_library =
     \<lparr>lib_resample = (\<lambda>img new_size. img_pixels img),
      lib_difference = (\<lambda>a b. map (\<lambda>(x, y). if x < y then y - x else x - y)
                                 (zip (img_pixels a) (img_pixels b))),
      lib_to_gray = img_pixels,
      lib_threshold = (\<lambda>g t m ty. map (\<lambda>v. if v > t then m else 0) g),
      lib_find_contours = (\<lambda>g mode method.
         map (\<lambda>v. \<lparr>contourArea = 400, boundingRect = (0, 0, 40, 10)\<rparr>) (filter (\<lambda>v. v \<noteq> 0) g))\<rparr>"

definition ex_render_fs :: "nat list image file_system" where
  "ex_render_fs =
     [''clean.pdf'' \<mapsto>
        Pdf [\<lparr>img_width = 2, img_height = 2, img_pixels = [0, 0, 0, 0]\<rparr>,
             \<lparr>img_width = 2, img_height = 2, img_pixels = [9, 9, 9, 9]\<rparr>,
             \<lparr>img_width = 2, img_height = 2, img_pixels = [5, 5, 5, 5]\<rparr>],
      ''annotated.pdf'' \<mapsto>
        Pdf [\<lparr>img_width = 2, img_height = 2, img_pixels = [0, 200, 0, 20]\<rparr>,
             \<lparr>img_width = 3, img_height = 2, img_pixels = [9, 9, 9, 9]\<rparr>]]"

section \<open>ocr\_annotation\_detector.py\<close>

subsection \<open>The text dictionary of a page\<close>

text \<open>
  \<open>page.get_text("dict")\<close> returns a dictionary with the page's \<open>blocks\<close> and its
  \<open>width\<close> and \<open>height\<close>. A text block has \<open>lines\<close>, each with \<open>spans\<close>; an image
  block has no \<open>lines\<close> key. The script reads \<open>font\<close>, \<open>size\<close> and \<open>bbox\<close> of a span
  by subscript and \<open>color\<close> and \<open>text\<close> with \<open>.get\<close> and a default, so these two are
  optional here, as are \<open>width\<close> and \<open>height\<close> of the page.
\<close>

record span =
  span_font :: string
  span_size :: rat
  span_color :: "int option"
  span_text :: "string option"
  span_bbox :: "rat \<times> rat \<times> rat \<times> rat"

type_synonym text_line = "span list"

type_synonym text_block = "text_line list option"

record text_blocks =
  tb_blocks :: "text_block list"
  tb_width :: "rat option"
  tb_height :: "rat option"

text \<open>\<open>span.get("color", 0)\<close> and \<open>span.get("text", "")\<close>.\<close>

definition get_color :: "span \<Rightarrow> int" where
  "get_color sp = (case span_color sp of None \<Rightarrow> 0 | Some c \<Rightarrow> c)"

definition get_text :: "span \<Rightarrow> string" where
  "get_text sp = (case span_text sp of None \<Rightarrow> [] | Some t \<Rightarrow> t)"

subsection \<open>analyze\_text\_characteristics\<close>

text \<open>
  \<open>round(x, 1)\<close> on a float: the nearest multiple of one tenth, a tie going to the
  even one.
\<close>

definition py_round1 :: "rat \<Rightarrow> rat" where
  "py_round1 x =
     (let y = x * 10; f = \<lfloor>y\<rfloor>; d = y - of_int f in
      (if d < 1 / 2 then of_int f
       else if d > 1 / 2 then of_int (f + 1)
       else if even f then of_int f else of_int (f + 1)) / 10)"

text \<open>
  \<open>max(d.items(), key=lambda x: x[1])\<close>: the first item whose count no other item
  exceeds. The script calls it on a non-empty dictionary only.
\<close>

fun max_item_from :: "('k \<times> nat) \<Rightarrow> ('k \<times> nat) list \<Rightarrow> ('k \<times> nat)" where
  "max_item_from best [] = best"
| "max_item_from best (x # xs) =
     (if snd x > snd best then max_item_from x xs else max_item_from best xs)"

record characteristics =
  main_font :: string
  main_size :: rat
  main_color :: int
  all_fonts :: "(string \<times> nat) list"
  all_sizes :: "(rat \<times> nat) list"
  all_colors :: "(int \<times> nat) list"

type_synonym counters = "(string \<times> nat) list \<times> (rat \<times> nat) list \<times> (int \<times> nat) list"

text \<open>The three nested loops, innermost first.\<close>

definition count_span :: "counters \<Rightarrow> span \<Rightarrow> counters" where
  "count_span acc sp =
     (case acc of (fonts, font_sizes, colors) \<Rightarrow>
        (let font = span_font sp; size = py_round1 (span_size sp); color = get_color sp in
         (bump font fonts, bump size font_sizes, bump color colors)))"

definition count_line :: "counters \<Rightarrow> text_line \<Rightarrow> counters" where
  "count_line acc line = foldl count_span acc line"

definition count_block :: "counters \<Rightarrow> text_block \<Rightarrow> counters" where
  "count_block acc block =
     (case block of None \<Rightarrow> acc | Some lines \<Rightarrow> foldl count_line acc lines)"

definition analyze_text_characteristics :: "text_blocks \<Rightarrow> characteristics" where
  "analyze_text_characteristics tb =
     (case foldl count_block ([], [], []) (tb_blocks tb) of (fonts, font_sizes, colors) \<Rightarrow>
        \<lparr>main_font = (case fonts of [] \<Rightarrow> ''unknown'' | x # xs \<Rightarrow> fst (max_item_from x xs)),
         main_size = (case font_sizes of [] \<Rightarrow> 12 | x # xs \<Rightarrow> fst (max_item_from x xs)),
         main_color = (case colors of [] \<Rightarrow> 0 | x # xs \<Rightarrow> fst (max_item_from x xs)),
         all_fonts = fonts, all_sizes = font_sizes, all_colors = colors\<rparr>)"

subsection \<open>find\_potential\_annotation\_text\<close>

record potential_annotation =
  pa_text :: string
  pa_font :: string
  pa_size :: rat
  pa_color :: int
  pa_bbox :: "rat \<times> rat \<times> rat \<times> rat"
  pa_score :: nat
  pa_reasons :: "string list"
  pa_in_margin :: bool

text \<open>
  The body of the innermost loop for one span: \<open>None\<close> when the span is skipped
  (\<open>continue\<close> on a text that is empty after \<open>strip()\<close>) or scores below 3, otherwise the
  dictionary that is appended. The score and the reasons are built in the source's
  order.
\<close>

definition examine_span :: "text_blocks \<Rightarrow> characteristics \<Rightarrow> span \<Rightarrow> potential_annotation option" where
  "examine_span tb ch sp =
     (let font = span_font sp; size = span_size sp; color = get_color sp;
          text = py_strip (get_text sp); bbox = span_bbox sp in
      if text = [] then None
      else
        (let is_different_font = (font \<noteq> main_font ch);
             is_different_size = (\<bar>size - main_size ch\<bar> > 2);
             is_different_color = (color \<noteq> main_color ch);
             page_width = (case tb_width tb of None \<Rightarrow> 595 | Some w \<Rightarrow> w);
             page_height = (case tb_height tb of None \<Rightarrow> 842 | Some h \<Rightarrow> h) in
         (case bbox of (x0, y0, x1, y1) \<Rightarrow>
           (let x_center = (x0 + x1) / 2;
                y_center = (y0 + y1) / 2;
                left_margin = (x_center < page_width * (1 / 10));
                right_margin = (x_center > page_width * (9 / 10));
                top_margin = (y_center < page_height * (1 / 10));
                bottom_margin = (y_center > page_height * (9 / 10));
                in_margin = (left_margin \<or> right_margin \<or> top_margin \<or> bottom_margin);
                s1 = (if is_different_font then (2, [''different font'']) else (0, []));
                s2 = (if is_different_size
                      then (fst s1 + 2, snd s1 @ [''different size'']) else s1);
                s3 = (if is_different_color
                      then (fst s2 + 3, snd s2 @ [''different color'']) else s2);
                s4 = (if in_margin then (fst s3 + 2, snd s3 @ [''in margin'']) else s3);
                s5 = (if length text < 50 then (fst s4 + 1, snd s4 @ [''short text'']) else s4);
                s6 = (if size < main_size ch - 3
                      then (fst s5 + 1, snd s5 @ [''smaller text''])
                      else if size > main_size ch + 5
                      then (fst s5 + 1, snd s5 @ [''larger text''])
                      else s5);
                annotation_score = fst s6; reasons = snd s6 in
            if annotation_score \<ge> 3
            then Some \<lparr>pa_text = text, pa_font = font, pa_size = size, pa_color = color,
                       pa_bbox = bbox, pa_score = annotation_score, pa_reasons = reasons,
                       pa_in_margin = in_margin\<rparr>
            else None))))"

definition find_in_span ::
  "text_blocks \<Rightarrow> characteristics \<Rightarrow> potential_annotation list \<Rightarrow> span \<Rightarrow> potential_annotation list" where
  "find_in_span tb ch acc sp =
     (case examine_span tb ch sp of None \<Rightarrow> acc | Some a \<Rightarrow> acc @ [a])"

definition find_in_line ::
  "text_blocks \<Rightarrow> characteristics \<Rightarrow> potential_annotation list \<Rightarrow> text_line \<Rightarrow> potential_annotation list" where
  "find_in_line tb ch acc line = foldl (find_in_span tb ch) acc line"

definition find_in_block ::
  "text_blocks \<Rightarrow> characteristics \<Rightarrow> potential_annotation list \<Rightarrow> text_block \<Rightarrow> potential_annotation list" where
  "find_in_block tb ch acc block =
     (case block of None \<Rightarrow> acc | Some lines \<Rightarrow> foldl (find_in_line tb ch) acc lines)"

definition find_potential_annotation_text ::
  "text_blocks \<Rightarrow> characteristics \<Rightarrow> potential_annotation list" where
  "find_potential_annotation_text tb ch = foldl (find_in_block tb ch) [] (tb_blocks tb)"

text \<open>The spans of a page, in reading order: those of the blocks that have lines.\<close>

definition page_spans :: "text_blocks \<Rightarrow> span list" where
  "page_spans tb =
     concat (concat (map (\<lambda>block. case block of None \<Rightarrow> [] | Some lines \<Rightarrow> lines) (tb_blocks tb)))"

text \<open>How many of the given spans have the value \<open>v\<close> under the reading \<open>f\<close>.\<close>

definition occurrences :: "(span \<Rightarrow> 'k) \<Rightarrow> span list \<Rightarrow> 'k \<Rightarrow> nat" where
  "occurrences f spans v = length (filter (\<lambda>sp. f sp = v) spans)"

subsection \<open>An example page\<close>

text \<open>
  A page of 595 x 842 points with a text block of two lines, an image block and a
  second text block. Three spans are set in black 12 pt Helvetica (one of them has no
  colour entry, one measures 11.96 pt, one holds a single blank and is blue); the
  fourth is a red 9 pt note in Times.
\<close>

definition ex_hello :: span where
  "ex_hello = \<lparr>span_font = ''Helvetica'', span_size = 12, span_color = Some 0,
                span_text = Some ''Hello'', span_bbox = (100, 100, 200, 112)\<rparr>"

definition ex_world :: span where
  "ex_world = \<lparr>span_font = ''Helvetica'', span_size = 1196 / 100, span_color = None,
                span_text = Some ''World'', span_bbox = (210, 100, 260, 112)\<rparr>"

definition ex_blank :: span where
  "ex_blank = \<lparr>span_font = ''Helvetica'', span_size = 12, span_color = Some 255,
                span_text = Some '' '', span_bbox = (100, 120, 104, 132)\<rparr>"

definition ex_note :: span where
  "ex_note = \<lparr>span_font = ''Times'', span_size = 9, span_color = Some 16711680,
               span_text = Some ''note'', span_bbox = (300, 400, 340, 409)\<rparr>"

definition ex_page :: text_blocks where
  "ex_page = \<lparr>tb_blocks = [Some [[ex_hello, ex_world], [ex_blank]], None, Some [[ex_note]]],
               tb_width = Some 595, tb_height = Some 842\<rparr>"

definition ex_empty_page :: text_blocks where
  "ex_empty_page = \<lparr>tb_blocks = [None], tb_width = Some 595, tb_height = Some 842\<rparr>"

subsection \<open>Auxiliary notions for the proofs about the text heuristics\<close>

text \<open>The count a counter holds for a key (0 for a key it has not seen).\<close>

definition cnt :: "('k \<times> nat) list \<Rightarrow> 'k \<Rightarrow> nat" where
  "cnt al k = (case map_of al k of None \<Rightarrow> 0 | Some n \<Rightarrow> n)"

text \<open>The counter after the keys \<open>ks\<close> have been counted one by one, starting from \<open>al\<close>.\<close>

definition tally :: "('k \<times> nat) list \<Rightarrow> 'k list \<Rightarrow> ('k \<times> nat) list" where
  "tally al ks = foldl (\<lambda>acc k. bump k acc) al ks"

text \<open>What the innermost loop body appends for a list of spans.\<close>

definition reported :: "text_blocks \<Rightarrow> characteristics \<Rightarrow> span list \<Rightarrow> potential_annotation list" where
  "reported tb ch spans =
     concat (map (\<lambda>sp. case examine_span tb ch sp of None \<Rightarrow> [] | Some a \<Rightarrow> [a]) spans)"

subsection \<open>detect\_annotation\_text and the page helpers\<close>

text \<open>
  For this script a page of a PDF is its text dictionary together with the image the
  PDF library renders it to. The functions below return, next to their result, the
  calls into the PDF, image and OCR libraries they make, in order: \<open>fitz.open\<close>,
  \<open>page.get_text("dict")\<close>, \<open>page.get_pixmap\<close>, \<open>cv2.cvtColor\<close> and
  \<open>pytesseract.image_to_data\<close>. The last two are parameters of the model.
\<close>

record 'img text_page =
  tp_text :: text_blocks
  tp_render :: 'img

datatype library_call =
    FitzOpen string
  | GetText nat
  | GetPixmap nat
  | CvtColor
  | ImageToData

record ('img, 'd) ocr_library =
  lib_cvt_color :: "'img \<Rightarrow> 'img"
  lib_image_to_data :: "'img \<Rightarrow> 'd"

text \<open>
  \<open>pdf_page_to_image\<close> of this script (the name is taken by the function of the
  other script) and \<open>get_pdf_text_blocks\<close>: each opens the document for one page.
\<close>

definition ocr_pdf_page_to_image ::
  "'img text_page file_system \<Rightarrow> string \<Rightarrow> nat \<Rightarrow> (py_error + 'img) \<times> library_call list" where
  "ocr_pdf_page_to_image fs pdf_path page_num =
     (case fitz_open fs pdf_path of
        Inl e \<Rightarrow> (Inl e, [FitzOpen pdf_path])
      | Inr doc \<Rightarrow>
          if page_num < length doc
          then (Inr (tp_render (doc ! page_num)), [FitzOpen pdf_path, GetPixmap page_num])
          else (Inl IndexError, [FitzOpen pdf_path]))"

definition get_pdf_text_blocks ::
  "'img text_page file_system \<Rightarrow> string \<Rightarrow> nat \<Rightarrow> (py_error + text_blocks) \<times> library_call list" where
  "get_pdf_text_blocks fs pdf_path page_num =
     (case fitz_open fs pdf_path of
        Inl e \<Rightarrow> (Inl e, [FitzOpen pdf_path])
      | Inr doc \<Rightarrow>
          if page_num < length doc
          then (Inr (tp_text (doc ! page_num)), [FitzOpen pdf_path, GetText page_num])
          else (Inl IndexError, [FitzOpen pdf_path]))"

text \<open>\<open>ocr_page\<close>: the image is converted for OpenCV and handed to the OCR engine.\<close>

definition ocr_page :: "('img, 'd) ocr_library \<Rightarrow> 'img \<Rightarrow> 'd \<times> library_call list" where
  "ocr_page L page_image =
     (let opencv_img = lib_cvt_color L page_image;
          ocr_data = lib_image_to_data L opencv_img
      in (ocr_data, [CvtColor, ImageToData]))"

text \<open>
  The loop of \<open>detect_annotation_text\<close> over \<open>range(total_pages)\<close>: for each page the
  text dictionary is fetched, its characteristics are analysed and the potential
  annotations are added to \<open>all_annotations\<close>.
\<close>

fun detect_text_pages ::
  "'img text_page file_system \<Rightarrow> string \<Rightarrow> nat list \<Rightarrow> potential_annotation list \<Rightarrow>
   library_call list \<Rightarrow> (py_error + potential_annotation list) \<times> library_call list" where
  "detect_text_pages fs pdf_path [] all_annotations calls = (Inr all_annotations, calls)"
| "detect_text_pages fs pdf_path (page_num # rest) all_annotations calls =
     (case get_pdf_text_blocks fs pdf_path page_num of
        (Inl e, made) \<Rightarrow> (Inl e, calls @ made)
      | (Inr text_blocks, made) \<Rightarrow>
          (let characteristics = analyze_text_characteristics text_blocks;
               potential_annotations = find_potential_annotation_text text_blocks characteristics
           in detect_text_pages fs pdf_path rest (all_annotations @ potential_annotations)
                (calls @ made)))"

text \<open>
  \<open>detect_annotation_text\<close>: the value it returns and the library calls it made. A
  missing file is answered before the \<open>try\<close>, an exception by the handler.
\<close>

definition detect_annotation_text ::
  "'img text_page file_system \<Rightarrow> string \<Rightarrow> bool \<times> library_call list" where
  "detect_annotation_text fs pdf_path =
     (if \<not> path_exists fs pdf_path then (False, [])
      else
        (case fitz_open fs pdf_path of
           Inl e \<Rightarrow> (False, [FitzOpen pdf_path])
         | Inr doc \<Rightarrow>
             (let total_pages = length doc in
              case detect_text_pages fs pdf_path [0 ..< total_pages] [] [FitzOpen pdf_path] of
                (Inl e, calls) \<Rightarrow> (False, calls)
              | (Inr all_annotations, calls) \<Rightarrow> (length all_annotations > 0, calls))))"

text \<open>A PDF of two pages, the example page and the page without spans.\<close>

definition ex_text_fs :: "unit text_page file_system" where
  "ex_text_fs =
     [''paper.pdf'' \<mapsto> Pdf [\<lparr>tp_text = ex_page, tp_render = ()\<rparr>,
                              \<lparr>tp_text = ex_empty_page, tp_render = ()\<rparr>]]"

section \<open>Properties\<close>

subsection \<open>Contour classification\<close>

lemma analyze_contours_loop_kept:
  "(\<And>c. c \<in> set cs \<Longrightarrow> \<not> contourArea c < m \<Longrightarrow> rect_h c \<noteq> 0) \<Longrightarrow>
   analyze_contours_loop cs m acc =
     Inr (acc @ map contour_annotation (filter (\<lambda>c. \<not> contourArea c < m) cs))"
proof (induction cs arbitrary: acc)
  case Nil
  then show ?case by simp
next
  case (Cons c cs)
  have rest: "\<And>a. analyze_contours_loop cs m a =
      Inr (a @ map contour_annotation (filter (\<lambda>c. \<not> contourArea c < m) cs))"
    using Cons.IH Cons.prems by simp
  show ?case
  proof (cases "contourArea c < m")
    case True
    then show ?thesis using rest by simp
  next
    case False
    obtain x y w h where r: "boundingRect c = (x, y, w, h)"
      by (cases "boundingRect c") auto
    have "rect_h c \<noteq> 0" using Cons.prems False by simp
    then have h: "h \<noteq> 0" using r by (simp add: rect_h_def)
    have "contour_annotation c =
        \<lparr>fa_type = classify_aspect (rat_of_int w / rat_of_int h), fa_bbox = (x, y, w, h),
         fa_area = contourArea c, fa_aspect_ratio = rat_of_int w / rat_of_int h\<rparr>"
      using r by (simp add: contour_annotation_def rect_w_def rect_h_def)
    then show ?thesis using False r h rest by (simp add: Let_def)
  qed
qed

lemma classify_aspect_cases:
  "(classify_aspect r = ''line/arrow'' \<longleftrightarrow> r > 5 \<or> r < 2 / 10) \<and>
   (classify_aspect r = ''square/circle'' \<longleftrightarrow> 8 / 10 \<le> r \<and> r \<le> 12 / 10) \<and>
   (classify_aspect r = ''text/rectangle'' \<longleftrightarrow> 2 < r \<and> r \<le> 5) \<and>
   (classify_aspect r = ''rectangle/shape'' \<longleftrightarrow>
      (2 / 10 \<le> r \<and> r < 8 / 10) \<or> (12 / 10 < r \<and> r \<le> 2))"
  unfolding classify_aspect_def by auto

text \<open>
  C5. For contours as the image library returns them (a bounding rectangle of non-zero
  height), \<open>analyze_contours\<close> raises nothing, drops exactly the contours whose area is
  below \<open>min_area\<close> (100 by default), keeps the others in order, and labels every kept
  contour from its aspect ratio \<open>w / h\<close> alone: \<open>line/arrow\<close> when the ratio is above 5
  or below 0.2, otherwise \<open>square/circle\<close> when it lies in [0.8, 1.2], otherwise
  \<open>text/rectangle\<close> when it is above 2, otherwise \<open>rectangle/shape\<close>.
\<close>

theorem analyze_contours_classification:
  assumes "\<forall>c \<in> set contours. rect_h c \<noteq> 0"
  shows "analyze_contours contours min_area =
           Inr (map contour_annotation (filter (\<lambda>c. \<not> contourArea c < min_area) contours)) \<and>
         analyze_contours_default contours = analyze_contours contours 100 \<and>
         (\<forall>c \<in> set contours.
            fa_type (contour_annotation c) =
              classify_aspect (rat_of_int (rect_w c) / rat_of_int (rect_h c))) \<and>
         (\<forall>r. (classify_aspect r = ''line/arrow'' \<longleftrightarrow> r > 5 \<or> r < 2 / 10) \<and>
              (classify_aspect r = ''square/circle'' \<longleftrightarrow>
                 \<not> (r > 5 \<or> r < 2 / 10) \<and> 8 / 10 \<le> r \<and> r \<le> 12 / 10) \<and>
              (classify_aspect r = ''text/rectangle'' \<longleftrightarrow>
                 \<not> (r > 5 \<or> r < 2 / 10) \<and> \<not> (8 / 10 \<le> r \<and> r \<le> 12 / 10) \<and> r > 2) \<and>
              (classify_aspect r = ''rectangle/shape'' \<longleftrightarrow>
                 \<not> (r > 5 \<or> r < 2 / 10) \<and> \<not> (8 / 10 \<le> r \<and> r \<le> 12 / 10) \<and> \<not> r > 2))"
proof -
  have kept: "analyze_contours contours min_area =
           Inr (map contour_annotation (filter (\<lambda>c. \<not> contourArea c < min_area) contours))"
    unfolding analyze_contours_def
    using analyze_contours_loop_kept [of contours min_area "[]"] assms by simp
  have dflt: "analyze_contours_default contours = analyze_contours contours 100"
    by (simp add: analyze_contours_default_def)
  have lab: "\<forall>c \<in> set contours.
            fa_type (contour_annotation c) =
              classify_aspect (rat_of_int (rect_w c) / rat_of_int (rect_h c))"
    by (simp add: contour_annotation_def)
  have chain: "\<And>r. (classify_aspect r = ''line/arrow'' \<longleftrightarrow> r > 5 \<or> r < 2 / 10) \<and>
              (classify_aspect r = ''square/circle'' \<longleftrightarrow>
                 \<not> (r > 5 \<or> r < 2 / 10) \<and> 8 / 10 \<le> r \<and> r \<le> 12 / 10) \<and>
              (classify_aspect r = ''text/rectangle'' \<longleftrightarrow>
                 \<not> (r > 5 \<or> r < 2 / 10) \<and> \<not> (8 / 10 \<le> r \<and> r \<le> 12 / 10) \<and> r > 2) \<and>
              (classify_aspect r = ''rectangle/shape'' \<longleftrightarrow>
                 \<not> (r > 5 \<or> r < 2 / 10) \<and> \<not> (8 / 10 \<le> r \<and> r \<le> 12 / 10) \<and> \<not> r > 2)"
    unfolding classify_aspect_def by simp
  from kept dflt lab chain show ?thesis by blast
qed

text \<open>
  The theorem at four contours, one per label, and a fifth one that is too small:
  300 x 20 (ratio 15), 50 x 50 (ratio 1), 90 x 30 (ratio 3), 30 x 20 (ratio 1.5), and
  a 5 x 5 contour of area 20.
\<close>

theorem analyze_contours_classification_witness:
  "analyze_contours_default
     [\<lparr>contourArea = 5000, boundingRect = (0, 0, 300, 20)\<rparr>,
      \<lparr>contourArea = 20, boundingRect = (7, 7, 5, 5)\<rparr>,
      \<lparr>contourArea = 2000, boundingRect = (10, 10, 50, 50)\<rparr>,
      \<lparr>contourArea = 2500, boundingRect = (0, 100, 90, 30)\<rparr>,
      \<lparr>contourArea = 500, boundingRect = (5, 5, 30, 20)\<rparr>] =
   Inr [\<lparr>fa_type = ''line/arrow'', fa_bbox = (0, 0, 300, 20), fa_area = 5000, fa_aspect_ratio = 15\<rparr>,
        \<lparr>fa_type = ''square/circle'', fa_bbox = (10, 10, 50, 50), fa_area = 2000, fa_aspect_ratio = 1\<rparr>,
        \<lparr>fa_type = ''text/rectangle'', fa_bbox = (0, 100, 90, 30), fa_area = 2500, fa_aspect_ratio = 3\<rparr>,
        \<lparr>fa_type = ''rectangle/shape'', fa_bbox = (5, 5, 30, 20), fa_area = 500, fa_aspect_ratio = 3 / 2\<rparr>]"
proof -
  let ?cs = "[\<lparr>contourArea = 5000, boundingRect = (0, 0, 300, 20)\<rparr>,
      \<lparr>contourArea = 20, boundingRect = (7, 7, 5, 5)\<rparr>,
      \<lparr>contourArea = 2000, boundingRect = (10, 10, 50, 50)\<rparr>,
      \<lparr>contourArea = 2500, boundingRect = (0, 100, 90, 30)\<rparr>,
      \<lparr>contourArea = 500, boundingRect = (5, 5, 30, 20)\<rparr>]"
  have h: "\<forall>c \<in> set ?cs. rect_h c \<noteq> 0"
    by (simp add: rect_h_def)
  show ?thesis
    using analyze_contours_classification [OF h, of 100]
    by (simp add: contour_annotation_def rect_w_def rect_h_def classify_aspect_def)
qed

subsection \<open>The page specification\<close>

lemma digit_char_props:
  assumes "d < 10"
  shows "is_digit (digit_char d)" "digit_val (digit_char d) = d"
    "\<not> py_isspace (digit_char d)" "digit_char d \<noteq> CHR '',''" "digit_char d \<noteq> CHR ''-''"
proof -
  have oc: "(of_char (digit_char d) :: nat) = 48 + d"
    using assms by (simp add: digit_char_def)
  show "is_digit (digit_char d)" using assms oc by (simp add: is_digit_def)
  show "digit_val (digit_char d) = d" using oc by (simp add: digit_val_def)
  show "\<not> py_isspace (digit_char d)" using assms oc by (simp add: py_isspace_def)
  show "digit_char d \<noteq> CHR '',''"
  proof
    assume "digit_char d = CHR '',''"
    then have "(of_char (digit_char d) :: nat) = of_char CHR '',''" by simp
    then show False using oc by simp
  qed
  show "digit_char d \<noteq> CHR ''-''"
  proof
    assume "digit_char d = CHR ''-''"
    then have "(of_char (digit_char d) :: nat) = of_char CHR ''-''" by simp
    then show False using oc by simp
  qed
qed

lemma show_nat_digits: "\<forall>c \<in> set (show_nat n). plain_digit c"
proof (induction n rule: show_nat.induct)
  case (1 n)
  show ?case
  proof (cases "n < 10")
    case True
    then show ?thesis
      by (subst show_nat.simps) (simp add: plain_digit_def digit_char_props)
  next
    case False
    have "n mod 10 < 10" by simp
    then have "plain_digit (digit_char (n mod 10))"
      by (simp add: plain_digit_def digit_char_props)
    then show ?thesis using False 1
      by (subst show_nat.simps) simp
  qed
qed

lemma show_nat_nonempty: "show_nat n \<noteq> []"
  by (subst show_nat.simps) simp

lemma py_int_digits_all:
  "\<forall>c \<in> set s. is_digit c \<Longrightarrow> py_int_digits acc s = Some (dec_value acc s)"
  by (induction acc s rule: py_int_digits.induct) (simp_all add: dec_value_def)

lemma dec_value_show_nat: "dec_value 0 (show_nat n) = n"
proof (induction n rule: show_nat.induct)
  case (1 n)
  show ?case
  proof (cases "n < 10")
    case True
    then show ?thesis
      by (subst show_nat.simps) (simp add: dec_value_def digit_char_props)
  next
    case False
    have "n mod 10 < 10" by simp
    then have "digit_val (digit_char (n mod 10)) = n mod 10"
      by (rule digit_char_props)
    then show ?thesis using False 1
      by (subst show_nat.simps) (simp add: dec_value_def)
  qed
qed

lemma py_int_unsigned_show_nat: "py_int_unsigned (show_nat n) = Some n"
proof -
  obtain c cs where s: "show_nat n = c # cs"
    using show_nat_nonempty by (cases "show_nat n") auto
  have d: "\<forall>x \<in> set (c # cs). is_digit x"
    using show_nat_digits [of n] s by (simp add: plain_digit_def)
  have "dec_value 0 (c # cs) = n" using dec_value_show_nat [of n] s by simp
  then have "dec_value (digit_val c) cs = n" by (simp add: dec_value_def)
  then show ?thesis using s d by (simp add: py_int_unsigned_def py_int_digits_all)
qed

lemma py_strip_no_space: "\<forall>c \<in> set s. \<not> py_isspace c \<Longrightarrow> py_strip s = s"
proof -
  assume a: "\<forall>c \<in> set s. \<not> py_isspace c"
  have 1: "dropWhile py_isspace s = s" using a by (cases s) auto
  have 2: "dropWhile py_isspace (rev s) = rev s" using a by (cases "rev s") auto
  show ?thesis by (simp add: py_strip_def 1 2)
qed

lemma py_strip_Nil_iff: "py_strip s = [] \<longleftrightarrow> (\<forall>c \<in> set s. py_isspace c)"
proof
  assume "py_strip s = []"
  then have "\<forall>x \<in> set (dropWhile py_isspace s). py_isspace x"
    by (simp add: py_strip_def dropWhile_eq_Nil_conv)
  then have "dropWhile py_isspace s = []"
    using hd_dropWhile [of py_isspace s] by (cases "dropWhile py_isspace s") auto
  then show "\<forall>c \<in> set s. py_isspace c" by (simp add: dropWhile_eq_Nil_conv)
next
  assume "\<forall>c \<in> set s. py_isspace c"
  then have dw: "dropWhile py_isspace s = []" by (simp add: dropWhile_eq_Nil_conv)
  show "py_strip s = []" by (simp only: py_strip_def dw rev.simps dropWhile.simps)
qed

lemma py_strip_idem: "py_strip (py_strip s) = py_strip s"
proof -
  define a where "a = dropWhile py_isspace s"
  define b where "b = rev (dropWhile py_isspace (rev a))"
  have b: "py_strip s = b" by (simp add: py_strip_def a_def b_def)
  have split: "a = b @ rev (takeWhile py_isspace (rev a))"
  proof -
    have "rev (takeWhile py_isspace (rev a) @ dropWhile py_isspace (rev a)) = a"
      by (simp only: takeWhile_dropWhile_id rev_rev_ident)
    then show ?thesis by (simp only: rev_append b_def)
  qed
  have front: "dropWhile py_isspace b = b"
  proof (cases b)
    case Nil then show ?thesis by simp
  next
    case (Cons x xs)
    have "hd a = hd (b @ rev (takeWhile py_isspace (rev a)))"
      using split by (rule arg_cong)
    then have hx: "hd a = x" using Cons by simp
    have "length a = length (b @ rev (takeWhile py_isspace (rev a)))"
      using split by (rule arg_cong)
    then have "a \<noteq> []" using Cons by auto
    with hx have "a \<noteq> []" and "hd a = x" by simp_all
    then have "\<not> py_isspace x" using hd_dropWhile [of py_isspace s] by (simp add: a_def)
    then show ?thesis using Cons by simp
  qed
  have rear: "dropWhile py_isspace (rev b) = rev b"
  proof (cases "rev b")
    case Nil then show ?thesis by simp
  next
    case (Cons x xs)
    have rb: "rev b = dropWhile py_isspace (rev a)" by (simp add: b_def)
    have dx: "dropWhile py_isspace (rev a) = x # xs" using rb Cons by (simp only:)
    then have "dropWhile py_isspace (rev a) \<noteq> []" by (simp only: list.distinct not_False_eq_True)
    then have "\<not> py_isspace (hd (dropWhile py_isspace (rev a)))" by (rule hd_dropWhile)
    then have "\<not> py_isspace x" by (simp add: dx)
    then show ?thesis using Cons by simp
  qed
  show ?thesis unfolding b by (simp add: py_strip_def front rear)
qed

lemma py_int_strip: "py_int (py_strip s) = py_int s"
  by (simp add: py_int_def py_strip_idem)

lemma py_int_show_nat: "py_int (show_nat n) = Some (int n)"
proof -
  have ns: "\<forall>c \<in> set (show_nat n). \<not> py_isspace c"
    using show_nat_digits [of n] by (simp add: plain_digit_def)
  obtain c cs where s: "show_nat n = c # cs"
    using show_nat_nonempty by (cases "show_nat n") auto
  have "plain_digit c" using show_nat_digits [of n] s by simp
  then have "is_digit c" by (simp add: plain_digit_def)
  then have c: "c \<noteq> CHR ''+''" "c \<noteq> CHR ''-''" by (auto simp: is_digit_def)
  have st: "py_strip (c # cs) = c # cs"
    using py_strip_no_space [OF ns] s by simp
  show ?thesis
    using py_int_unsigned_show_nat [of n] s c
    by (simp add: py_int_def st)
qed

lemma py_split_no_sep: "sep \<notin> set w \<Longrightarrow> py_split sep w = [w]"
  by (induction w) auto

lemma py_split_append:
  "sep \<notin> set w \<Longrightarrow> py_split sep (w @ sep # rest) = w # py_split sep rest"
  by (induction w) auto

lemma py_split_once_append:
  "sep \<notin> set l \<Longrightarrow> py_split_once sep (l @ sep # r) = (l, r)"
  by (induction l) (auto simp: py_split_once_def)

lemma show_nat_chars:
  "CHR '','' \<notin> set (show_nat n)" "CHR ''-'' \<notin> set (show_nat n)"
  "\<forall>c \<in> set (show_nat n). \<not> py_isspace c"
  using show_nat_digits [of n] by (auto simp: plain_digit_def)

lemma render_item_no_comma: "CHR '','' \<notin> set (render_item i)"
  by (cases i) (simp_all add: show_nat_chars)

lemma render_item_no_space: "\<forall>c \<in> set (render_item i). \<not> py_isspace c"
proof (cases i)
  case (Single p)
  then show ?thesis by (simp add: show_nat_chars)
next
  case (Range a b)
  have "\<not> py_isspace CHR ''-''" by (simp add: py_isspace_def)
  then show ?thesis using Range show_nat_chars(3) by auto
qed

lemma render_item_nonempty: "render_item i \<noteq> []"
  by (cases i) (simp_all add: show_nat_nonempty)

lemma py_split_render_items:
  "items \<noteq> [] \<Longrightarrow> py_split CHR '','' (render_items items) = map render_item items"
proof (induction items rule: render_items.induct)
  case 1
  then show ?case by simp
next
  case (2 i)
  then show ?case by (simp add: py_split_no_sep render_item_no_comma)
next
  case (3 i j js)
  then show ?case by (simp add: py_split_append render_item_no_comma)
qed

lemma render_items_not_blank:
  assumes "items \<noteq> []"
  shows "render_items items \<noteq> [] \<and> py_strip (render_items items) \<noteq> []"
proof -
  obtain i rest where r: "render_items items = render_item i @ rest"
    using assms by (cases items rule: render_items.cases) auto
  obtain c cs where c: "render_item i = c # cs"
    using render_item_nonempty by (cases "render_item i") auto
  have "\<not> py_isspace c" using render_item_no_space [of i] c by simp
  moreover have "c \<in> set (render_items items)" using r c by simp
  ultimately have "py_strip (render_items items) \<noteq> []"
    using py_strip_Nil_iff by blast
  then show ?thesis using r c by simp
qed

lemma parse_component_render_item:
  assumes "item_ok i"
  shows "\<exists>S. parse_component (render_item i) = Inr S \<and> fset S = item_pages i"
proof (cases i)
  case (Single p)
  have st: "py_strip (show_nat p) = show_nat p"
    by (rule py_strip_no_space) (rule show_nat_chars)
  have "1 \<le> p" using assms Single by simp
  then have "parse_component (show_nat p) = Inr {|nat (int p - 1)|}"
    by (simp add: parse_component_def st show_nat_chars py_int_show_nat)
  moreover have "nat (int p - 1) = p - 1" by simp
  ultimately show ?thesis using Single by simp
next
  case (Range a b)
  let ?s = "show_nat a @ CHR ''-'' # show_nat b"
  have ab: "1 \<le> a" "a \<le> b" using assms Range by simp_all
  have "\<forall>c \<in> set ?s. \<not> py_isspace c"
    using render_item_no_space [of "Range a b"] by simp
  then have st: "py_strip ?s = ?s" by (rule py_strip_no_space)
  have sp: "py_split_once CHR ''-'' ?s = (show_nat a, show_nat b)"
    by (rule py_split_once_append) (rule show_nat_chars)
  have sa: "py_strip (show_nat a) = show_nat a" and sb: "py_strip (show_nat b) = show_nat b"
    by (rule py_strip_no_space, rule show_nat_chars)+
  have "parse_component ?s = Inr (fset_of_list [nat (int a - 1) ..< nat (int b)])"
    using ab by (simp add: parse_component_def st sp sa sb py_int_show_nat)
  moreover have "fset (fset_of_list [nat (int a - 1) ..< nat (int b)]) = {a - 1 .. b - 1}"
    using ab by (auto simp: fset_of_list.rep_eq)
  ultimately show ?thesis using Range by simp
qed

lemma parse_component_error: "parse_component c = Inl e \<Longrightarrow> \<exists>v. e = ValueError v"
  by (auto simp: parse_component_def Let_def split: if_splits option.splits prod.splits)

lemma parse_components_error:
  "\<exists>c \<in> set cs. isl (parse_component c) \<Longrightarrow> \<exists>v. parse_components cs acc = Inl (ValueError v)"
proof (induction cs arbitrary: acc)
  case Nil
  then show ?case by simp
next
  case (Cons c cs)
  show ?case
  proof (cases "parse_component c")
    case (Inl e)
    then show ?thesis using parse_component_error [OF Inl] by auto
  next
    case (Inr S)
    then have "\<exists>c \<in> set cs. isl (parse_component c)" using Cons.prems by auto
    then show ?thesis using Cons.IH Inr by simp
  qed
qed

lemma parse_components_ok:
  "\<forall>c \<in> set cs. \<exists>S. parse_component c = Inr S \<and> fset S = pg c \<Longrightarrow>
   \<exists>S. parse_components cs acc = Inr S \<and> fset S = fset acc \<union> (\<Union>c \<in> set cs. pg c)"
proof (induction cs arbitrary: acc)
  case Nil
  then show ?case by simp
next
  case (Cons c cs)
  obtain N where n: "parse_component c = Inr N" "fset N = pg c" using Cons.prems by auto
  have rest: "\<forall>c \<in> set cs. \<exists>S. parse_component c = Inr S \<and> fset S = pg c"
    using Cons.prems by simp
  obtain S where s: "parse_components cs (acc |\<union>| N) = Inr S"
      "fset S = fset (acc |\<union>| N) \<union> (\<Union>c \<in> set cs. pg c)"
    using Cons.IH [OF rest, of "acc |\<union>| N"] by blast
  have "parse_components (c # cs) acc = Inr S" using n s by simp
  moreover have "fset S = fset acc \<union> (\<Union>c \<in> set (c # cs). pg c)"
    using n s by auto
  ultimately show ?case by blast
qed

lemma parse_component_reading_ok:
  assumes "reading_ok (component_reading c)"
  shows "\<exists>S. parse_component c = Inr S \<and> fset S = reading_pages (component_reading c)"
proof (cases "CHR ''-'' \<in> set (py_strip c)")
  case True
  obtain l r where lr: "py_split_once CHR ''-'' (py_strip c) = (l, r)"
    by (cases "py_split_once CHR ''-'' (py_strip c)") auto
  from assms True lr obtain a b where ab: "py_int l = Some a" "py_int r = Some b"
    by (auto simp: component_reading_def split: option.splits)
  then have rd: "component_reading c = PageRange a b"
    using True lr by (simp add: component_reading_def)
  then have ok: "1 \<le> a" "a \<le> b" using assms by simp_all
  have "parse_component c = Inr (fset_of_list [nat (a - 1) ..< nat b])"
    using True lr ab ok by (simp add: parse_component_def py_int_strip)
  moreover have "fset (fset_of_list [nat (a - 1) ..< nat b]) = {nat (a - 1) .. nat (b - 1)}"
    using ok by (auto simp: fset_of_list.rep_eq)
  ultimately show ?thesis using rd by simp
next
  case False
  from assms False obtain p where p: "py_int (py_strip c) = Some p"
    by (auto simp: component_reading_def split: option.splits)
  then have rd: "component_reading c = PageNo p"
    using False by (simp add: component_reading_def)
  then have "1 \<le> p" using assms by simp
  then have "parse_component c = Inr {|nat (p - 1)|}"
    using False p by (simp add: parse_component_def py_int_strip)
  then show ?thesis using rd by simp
qed

lemma parse_component_reading_bad:
  assumes "\<not> reading_ok (component_reading c)"
  shows "isl (parse_component c)"
proof (cases "CHR ''-'' \<in> set (py_strip c)")
  case True
  obtain l r where lr: "py_split_once CHR ''-'' (py_strip c) = (l, r)"
    by (cases "py_split_once CHR ''-'' (py_strip c)") auto
  show ?thesis
    using assms True lr
    by (auto simp: component_reading_def parse_component_def py_int_strip split: option.splits)
next
  case False
  then show ?thesis
    using assms
    by (auto simp: component_reading_def parse_component_def py_int_strip split: option.splits)
qed

text \<open>
  C8. \<open>parse_page_specification\<close>, given the decimal rendering of a non-empty list of
  1-based page numbers \<open>p \<ge> 1\<close> and ranges \<open>a-b\<close> with \<open>1 \<le> a \<le> b\<close>, joined by
  commas, returns exactly the zero-based pages covered: \<open>p - 1\<close> for a number, \<open>a - 1\<close>
  to \<open>b - 1\<close> for a range. It raises \<open>ValueError\<close> when the string is empty or only
  whitespace, and when some component is not numeric, is a page number below 1, or is a
  range that starts below 1 or after its end. More generally, with Python's own
  reading of numbers (\<open>int()\<close>, which also accepts surrounding blanks, a sign and
  underscores between digits), a string that is not blank and whose components all
  read as valid numbers or ranges yields exactly the pages they cover.
\<close>

theorem parse_page_specification_correct:
  "(items \<noteq> [] \<and> (\<forall>i \<in> set items. item_ok i) \<longrightarrow>
      (\<exists>S. parse_page_specification (render_items items) = Inr S \<and>
           fset S = (\<Union>i \<in> set items. item_pages i))) \<and>
   ((\<forall>c \<in> set s1. py_isspace c) \<longrightarrow>
      (\<exists>v. parse_page_specification s1 = Inl (ValueError v))) \<and>
   ((\<exists>c \<in> set (py_split CHR '','' s2).
        component_reading c = NotNumeric \<or>
        (\<exists>p. component_reading c = PageNo p \<and> p < 1) \<or>
        (\<exists>a b. component_reading c = PageRange a b \<and> (a < 1 \<or> b < 1 \<or> a > b))) \<longrightarrow>
      (\<exists>v. parse_page_specification s2 = Inl (ValueError v))) \<and>
   ((\<exists>c \<in> set s3. \<not> py_isspace c) \<and>
    (\<forall>c \<in> set (py_split CHR '','' s3). reading_ok (component_reading c)) \<longrightarrow>
      (\<exists>S. parse_page_specification s3 = Inr S \<and>
           fset S = (\<Union>c \<in> set (py_split CHR '','' s3). reading_pages (component_reading c))))"
proof (intro conjI impI)
  assume a: "items \<noteq> [] \<and> (\<forall>i \<in> set items. item_ok i)"
  then have nb: "render_items items \<noteq> []" "py_strip (render_items items) \<noteq> []"
    using render_items_not_blank by simp_all
  have "\<forall>c \<in> set (map render_item items).
          \<exists>S. parse_component c = Inr S \<and> fset S = fset (projr (parse_component c))"
    using a parse_component_render_item by fastforce
  then obtain S where s: "parse_components (map render_item items) {||} = Inr S"
      "fset S = fset {||} \<union> (\<Union>c \<in> set (map render_item items). fset (projr (parse_component c)))"
    using parse_components_ok [of "map render_item items" "\<lambda>c. fset (projr (parse_component c))" "{||}"]
    by blast
  have "\<And>i. i \<in> set items \<Longrightarrow> fset (projr (parse_component (render_item i))) = item_pages i"
    using a parse_component_render_item by fastforce
  then have "fset S = (\<Union>i \<in> set items. item_pages i)" using s(2) by simp
  moreover have "parse_page_specification (render_items items) = Inr S"
    using a nb s(1) by (simp add: parse_page_specification_def py_split_render_items)
  ultimately show "\<exists>S. parse_page_specification (render_items items) = Inr S \<and>
           fset S = (\<Union>i \<in> set items. item_pages i)" by blast
next
  assume "\<forall>c \<in> set s1. py_isspace c"
  then have "py_strip s1 = []" by (simp add: py_strip_Nil_iff)
  then show "\<exists>v. parse_page_specification s1 = Inl (ValueError v)"
    by (simp add: parse_page_specification_def)
next
  assume "\<exists>c \<in> set (py_split CHR '','' s2).
        component_reading c = NotNumeric \<or>
        (\<exists>p. component_reading c = PageNo p \<and> p < 1) \<or>
        (\<exists>a b. component_reading c = PageRange a b \<and> (a < 1 \<or> b < 1 \<or> a > b))"
  then obtain c where c: "c \<in> set (py_split CHR '','' s2)" "\<not> reading_ok (component_reading c)"
    by fastforce
  then have "\<exists>c \<in> set (py_split CHR '','' s2). isl (parse_component c)"
    using parse_component_reading_bad by blast
  then have "\<exists>v. parse_components (py_split CHR '','' s2) {||} = Inl (ValueError v)"
    by (rule parse_components_error)
  then show "\<exists>v. parse_page_specification s2 = Inl (ValueError v)"
    by (auto simp: parse_page_specification_def)
next
  assume a: "(\<exists>c \<in> set s3. \<not> py_isspace c) \<and>
    (\<forall>c \<in> set (py_split CHR '','' s3). reading_ok (component_reading c))"
  then have nb: "py_strip s3 \<noteq> []" "s3 \<noteq> []" using py_strip_Nil_iff by auto
  have "\<forall>c \<in> set (py_split CHR '','' s3).
          \<exists>S. parse_component c = Inr S \<and> fset S = reading_pages (component_reading c)"
    using a parse_component_reading_ok by blast
  then obtain S where "parse_components (py_split CHR '','' s3) {||} = Inr S"
      "fset S = fset {||} \<union> (\<Union>c \<in> set (py_split CHR '','' s3). reading_pages (component_reading c))"
    using parse_components_ok [of "py_split CHR '','' s3" "\<lambda>c. reading_pages (component_reading c)" "{||}"]
    by blast
  then show "\<exists>S. parse_page_specification s3 = Inr S \<and>
           fset S = (\<Union>c \<in> set (py_split CHR '','' s3). reading_pages (component_reading c))"
    using nb by (simp add: parse_page_specification_def)
qed

text \<open>
  The theorem at the documentation's example \<open>1-3,7,10-12\<close>, at a blank string, at a
  specification with page 0, and at one with blanks and a sign.
\<close>

theorem parse_page_specification_correct_witness:
  "(\<exists>S. parse_page_specification ''1-3,7,10-12'' = Inr S \<and> fset S = {0, 1, 2, 6, 9, 10, 11}) \<and>
   (\<exists>v. parse_page_specification ''   '' = Inl (ValueError v)) \<and>
   (\<exists>v. parse_page_specification ''2,0'' = Inl (ValueError v)) \<and>
   (\<exists>S. parse_page_specification '' 2 - 3 , +5'' = Inr S \<and> fset S = {1, 2, 4})"
proof -
  let ?items = "[Range 1 3, Single 7, Range 10 12]"
  have r: "render_items ?items = ''1-3,7,10-12''" by code_simp
  have h1: "?items \<noteq> [] \<and> (\<forall>i \<in> set ?items. item_ok i)" by simp
  have h2: "\<forall>c \<in> set ''   ''. py_isspace c" by (simp add: py_isspace_def)
  have sp2: "py_split CHR '','' ''2,0'' = [''2'', ''0'']" by code_simp
  have rd2: "component_reading ''0'' = PageNo 0" by code_simp
  have h3: "\<exists>c \<in> set (py_split CHR '','' ''2,0'').
        component_reading c = NotNumeric \<or>
        (\<exists>p. component_reading c = PageNo p \<and> p < 1) \<or>
        (\<exists>a b. component_reading c = PageRange a b \<and> (a < 1 \<or> b < 1 \<or> a > b))"
    unfolding sp2 using rd2 by simp
  have sp3: "py_split CHR '','' '' 2 - 3 , +5'' = ['' 2 - 3 '', '' +5'']" by code_simp
  have rd3: "component_reading '' 2 - 3 '' = PageRange 2 3" "component_reading '' +5'' = PageNo 5"
    by code_simp+
  have ns: "\<not> py_isspace CHR ''2''" by (simp add: py_isspace_def)
  have h4: "(\<exists>c \<in> set '' 2 - 3 , +5''. \<not> py_isspace c) \<and>
    (\<forall>c \<in> set (py_split CHR '','' '' 2 - 3 , +5''). reading_ok (component_reading c))"
    unfolding sp3 using rd3 ns by simp
  have pages: "(\<Union>i \<in> set ?items. item_pages i) = {0, 1, 2, 6, 9, 10, 11}" by auto
  have pages3: "(\<Union>c \<in> set (py_split CHR '','' '' 2 - 3 , +5''). reading_pages (component_reading c))
      = {1, 2, 4}"
    unfolding sp3 using rd3 by auto
  show ?thesis
    using parse_page_specification_correct [of ?items "''   ''" "''2,0''" "'' 2 - 3 , +5''"]
      h1 h2 h3 h4
    unfolding r pages pages3 by blast
qed

subsection \<open>The text heuristics\<close>

lemma cnt_bump: "cnt (bump k al) k' = cnt al k' + (if k' = k then 1 else 0)"
  by (induction al) (auto simp: cnt_def)

lemma keys_bump_list: "set (map fst (bump k al)) = insert k (set (map fst al))"
  by (induction k al rule: bump.induct) auto

lemma keys_bump: "fst ` set (bump k al) = insert k (fst ` set al)"
  using keys_bump_list [of k al] by simp

lemma distinct_bump: "distinct (map fst al) \<Longrightarrow> distinct (map fst (bump k al))"
proof (induction al)
  case Nil
  then show ?case by simp
next
  case (Cons a al)
  obtain k' n where a: "a = (k', n)" by (cases a)
  have "k' \<notin> fst ` set al" using Cons.prems a by simp
  then have "k \<noteq> k' \<Longrightarrow> k' \<notin> fst ` set (bump k al)" by (simp add: keys_bump)
  then show ?case using Cons a by auto
qed

lemma cnt_tally: "cnt (tally al ks) k = cnt al k + count_list ks k"
  by (induction ks arbitrary: al) (auto simp: tally_def cnt_bump)

lemma keys_tally: "fst ` set (tally al ks) = fst ` set al \<union> set ks"
  by (induction ks arbitrary: al) (auto simp: tally_def keys_bump)

lemma distinct_tally: "distinct (map fst al) \<Longrightarrow> distinct (map fst (tally al ks))"
  by (induction ks arbitrary: al) (auto simp: tally_def distinct_bump)

lemma tally_items:
  assumes "(k, n) \<in> set (tally [] ks)"
  shows "n = count_list ks k" and "k \<in> set ks"
proof -
  have "distinct (map fst (tally [] ks))" by (rule distinct_tally) simp
  then have "map_of (tally [] ks) k = Some n" using assms by simp
  then have "cnt (tally [] ks) k = n" by (simp add: cnt_def)
  then show "n = count_list ks k" using cnt_tally [of "[]" ks k] by (simp add: cnt_def)
  have "k \<in> fst ` set (tally [] ks)" using assms by force
  then show "k \<in> set ks" by (simp add: keys_tally)
qed

lemma tally_has_key:
  assumes "k \<in> set ks"
  shows "(k, count_list ks k) \<in> set (tally [] ks)"
proof -
  have "k \<in> fst ` set (tally [] ks)" using assms by (simp add: keys_tally)
  then obtain n where n: "(k, n) \<in> set (tally [] ks)" by auto
  then show ?thesis using tally_items(1) [OF n] by simp
qed

lemma max_item_from_mem: "max_item_from best xs \<in> set (best # xs)"
  by (induction best xs rule: max_item_from.induct) auto

lemma max_item_from_ge: "x \<in> set (best # xs) \<Longrightarrow> snd x \<le> snd (max_item_from best xs)"
proof (induction best xs arbitrary: x rule: max_item_from.induct)
  case (1 best)
  then show ?case by simp
next
  case (2 best y ys)
  show ?case
  proof (cases "snd y > snd best")
    case True
    have y: "snd y \<le> snd (max_item_from y ys)" using 2(1) [OF True, of y] by simp
    have "snd x \<le> snd (max_item_from y ys)"
    proof (cases "x = best")
      case True
      then show ?thesis using y \<open>snd y > snd best\<close> by simp
    next
      case False
      then have "x \<in> set (y # ys)" using 2(3) by simp
      then show ?thesis using 2(1) [OF True] by simp
    qed
    then show ?thesis using True by simp
  next
    case False
    have b: "snd best \<le> snd (max_item_from best ys)" using 2(2) [OF False, of best] by simp
    have "snd x \<le> snd (max_item_from best ys)"
    proof (cases "x = y")
      case True
      then show ?thesis using b False by simp
    next
      case ny: False
      then have "x \<in> set (best # ys)" using 2(3) by auto
      then show ?thesis using 2(2) [OF False] by simp
    qed
    then show ?thesis using False by simp
  qed
qed

text \<open>The most frequent key of a non-empty key list, as the script finds it.\<close>

lemma tally_max:
  assumes "tally [] ks = x # xs"
  shows "fst (max_item_from x xs) \<in> set ks"
    and "count_list ks v \<le> count_list ks (fst (max_item_from x xs))"
proof -
  obtain m n where mn: "max_item_from x xs = (m, n)" by (cases "max_item_from x xs")
  have mem: "(m, n) \<in> set (tally [] ks)"
    using max_item_from_mem [of x xs] mn assms by simp
  show "fst (max_item_from x xs) \<in> set ks"
    using tally_items(2) [OF mem] mn by simp
  have n: "n = count_list ks m" using tally_items(1) [OF mem] .
  show "count_list ks v \<le> count_list ks (fst (max_item_from x xs))"
  proof (cases "v \<in> set ks")
    case True
    have "(v, count_list ks v) \<in> set (x # xs)" using tally_has_key [OF True] assms by simp
    then have "snd (v, count_list ks v) \<le> snd (max_item_from x xs)" by (rule max_item_from_ge)
    then show ?thesis using mn n by simp
  next
    case False
    then show ?thesis by (simp add: count_list_0_iff)
  qed
qed

lemma tally_Nil_iff: "tally [] ks = [] \<longleftrightarrow> ks = []"
proof -
  have "fst ` set (tally [] ks) = set ks" by (simp add: keys_tally)
  then show ?thesis by (metis empty_set image_is_empty set_empty)
qed

lemma foldl_count_span:
  "foldl count_span (F, S, C) spans =
     (tally F (map span_font spans),
      tally S (map (\<lambda>sp. py_round1 (span_size sp)) spans),
      tally C (map get_color spans))"
  by (induction spans arbitrary: F S C) (simp_all add: tally_def count_span_def)

lemma foldl_count_line:
  "foldl count_line acc lines = foldl count_span acc (concat lines)"
  by (induction lines arbitrary: acc) (simp_all add: count_line_def)

lemma foldl_count_block:
  "foldl count_block acc blocks =
     foldl count_span acc
       (concat (concat (map (\<lambda>block. case block of None \<Rightarrow> [] | Some lines \<Rightarrow> lines) blocks)))"
  by (induction blocks arbitrary: acc)
     (simp_all add: count_block_def foldl_count_line split: option.splits)

lemma count_list_occurrences: "count_list (map f spans) v = occurrences f spans v"
  by (induction spans) (simp_all add: occurrences_def)

lemma analyze_counters:
  "foldl count_block ([], [], []) (tb_blocks tb) =
     (tally [] (map span_font (page_spans tb)),
      tally [] (map (\<lambda>sp. py_round1 (span_size sp)) (page_spans tb)),
      tally [] (map get_color (page_spans tb)))"
  by (simp add: foldl_count_block foldl_count_span page_spans_def)

text \<open>
  C6. \<open>analyze_text_characteristics\<close> counts, over all spans of the page's text
  blocks, the font names, the sizes rounded to one decimal and the colour values (0
  for a span without a colour). On a page without spans it returns \<open>unknown\<close>, 12 and
  0. Otherwise \<open>main_font\<close>, \<open>main_size\<close> and \<open>main_color\<close> are a font, a rounded size
  and a colour of some span of the page, and no other value occurs in more spans.
\<close>

theorem analyze_text_characteristics_most_common:
  "(page_spans tb = [] \<longrightarrow>
      main_font (analyze_text_characteristics tb) = ''unknown'' \<and>
      main_size (analyze_text_characteristics tb) = 12 \<and>
      main_color (analyze_text_characteristics tb) = 0) \<and>
   (page_spans tb \<noteq> [] \<longrightarrow>
      main_font (analyze_text_characteristics tb) \<in> span_font ` set (page_spans tb) \<and>
      main_size (analyze_text_characteristics tb) \<in>
        (\<lambda>sp. py_round1 (span_size sp)) ` set (page_spans tb) \<and>
      main_color (analyze_text_characteristics tb) \<in> get_color ` set (page_spans tb) \<and>
      (\<forall>f. occurrences span_font (page_spans tb) f
             \<le> occurrences span_font (page_spans tb) (main_font (analyze_text_characteristics tb))) \<and>
      (\<forall>s. occurrences (\<lambda>sp. py_round1 (span_size sp)) (page_spans tb) s
             \<le> occurrences (\<lambda>sp. py_round1 (span_size sp)) (page_spans tb)
                  (main_size (analyze_text_characteristics tb))) \<and>
      (\<forall>c. occurrences get_color (page_spans tb) c
             \<le> occurrences get_color (page_spans tb) (main_color (analyze_text_characteristics tb))))"
proof (intro conjI impI)
  assume e: "page_spans tb = []"
  show "main_font (analyze_text_characteristics tb) = ''unknown''"
    and "main_size (analyze_text_characteristics tb) = 12"
    and "main_color (analyze_text_characteristics tb) = 0"
    using e by (simp_all add: analyze_text_characteristics_def analyze_counters tally_def)
next
  assume ne: "page_spans tb \<noteq> []"
  let ?sp = "page_spans tb"
  obtain x xs where f: "tally [] (map span_font ?sp) = x # xs"
    using ne tally_Nil_iff [of "map span_font ?sp"] by (cases "tally [] (map span_font ?sp)") auto
  obtain y ys where s: "tally [] (map (\<lambda>sp. py_round1 (span_size sp)) ?sp) = y # ys"
    using ne tally_Nil_iff [of "map (\<lambda>sp. py_round1 (span_size sp)) ?sp"]
    by (cases "tally [] (map (\<lambda>sp. py_round1 (span_size sp)) ?sp)") auto
  obtain z zs where c: "tally [] (map get_color ?sp) = z # zs"
    using ne tally_Nil_iff [of "map get_color ?sp"] by (cases "tally [] (map get_color ?sp)") auto
  have mf: "main_font (analyze_text_characteristics tb) = fst (max_item_from x xs)"
    and ms: "main_size (analyze_text_characteristics tb) = fst (max_item_from y ys)"
    and mc: "main_color (analyze_text_characteristics tb) = fst (max_item_from z zs)"
    by (simp_all add: analyze_text_characteristics_def analyze_counters f s c)
  show "main_font (analyze_text_characteristics tb) \<in> span_font ` set ?sp"
    using tally_max(1) [OF f] mf by simp
  show "main_size (analyze_text_characteristics tb) \<in> (\<lambda>sp. py_round1 (span_size sp)) ` set ?sp"
    using tally_max(1) [OF s] ms by simp
  show "main_color (analyze_text_characteristics tb) \<in> get_color ` set ?sp"
    using tally_max(1) [OF c] mc by simp
  show "\<forall>f. occurrences span_font ?sp f
             \<le> occurrences span_font ?sp (main_font (analyze_text_characteristics tb))"
    using tally_max(2) [OF f] mf by (simp add: count_list_occurrences)
  show "\<forall>s. occurrences (\<lambda>sp. py_round1 (span_size sp)) ?sp s
             \<le> occurrences (\<lambda>sp. py_round1 (span_size sp)) ?sp
                  (main_size (analyze_text_characteristics tb))"
    using tally_max(2) [OF s] ms by (simp add: count_list_occurrences)
  show "\<forall>c. occurrences get_color ?sp c
             \<le> occurrences get_color ?sp (main_color (analyze_text_characteristics tb))"
    using tally_max(2) [OF c] mc by (simp add: count_list_occurrences)
qed

lemma ex_page_main:
  "main_font (analyze_text_characteristics ex_page) = ''Helvetica''"
  "main_size (analyze_text_characteristics ex_page) = 12"
  "main_color (analyze_text_characteristics ex_page) = 0"
  by code_simp+

text \<open>The theorem at the page without spans and at the example page.\<close>

theorem analyze_text_characteristics_most_common_witness:
  "main_font (analyze_text_characteristics ex_empty_page) = ''unknown'' \<and>
   main_size (analyze_text_characteristics ex_empty_page) = 12 \<and>
   main_color (analyze_text_characteristics ex_empty_page) = 0 \<and>
   main_font (analyze_text_characteristics ex_page) = ''Helvetica'' \<and>
   main_size (analyze_text_characteristics ex_page) = 12 \<and>
   main_color (analyze_text_characteristics ex_page) = 0 \<and>
   (\<forall>f. occurrences span_font (page_spans ex_page) f
          \<le> occurrences span_font (page_spans ex_page) ''Helvetica'') \<and>
   (\<forall>s. occurrences (\<lambda>sp. py_round1 (span_size sp)) (page_spans ex_page) s
          \<le> occurrences (\<lambda>sp. py_round1 (span_size sp)) (page_spans ex_page) 12) \<and>
   (\<forall>c. occurrences get_color (page_spans ex_page) c
          \<le> occurrences get_color (page_spans ex_page) 0)"
proof -
  have e: "page_spans ex_empty_page = []" by code_simp
  have ne: "page_spans ex_page \<noteq> []" by code_simp
  show ?thesis
    using analyze_text_characteristics_most_common [of ex_empty_page]
      analyze_text_characteristics_most_common [of ex_page] e ne
    by (simp add: ex_page_main)
qed

lemma reported_append: "reported tb ch (xs @ ys) = reported tb ch xs @ reported tb ch ys"
  by (simp add: reported_def)

lemma foldl_find_in_span:
  "foldl (find_in_span tb ch) acc spans = acc @ reported tb ch spans"
  by (induction spans arbitrary: acc)
     (simp_all add: find_in_span_def reported_def split: option.splits)

lemma foldl_find_in_line:
  "foldl (find_in_line tb ch) acc lines = acc @ reported tb ch (concat lines)"
  by (induction lines arbitrary: acc)
     (simp_all add: find_in_line_def foldl_find_in_span reported_append, simp add: reported_def)

lemma foldl_find_in_block:
  "foldl (find_in_block tb ch) acc blocks =
     acc @ reported tb ch
       (concat (concat (map (\<lambda>block. case block of None \<Rightarrow> [] | Some lines \<Rightarrow> lines) blocks)))"
proof (induction blocks arbitrary: acc)
  case Nil
  then show ?case by (simp add: reported_def)
next
  case (Cons b bs)
  then show ?case
    by (cases b) (simp_all add: find_in_block_def foldl_find_in_line reported_append)
qed

lemma find_potential_annotation_text_spans:
  "find_potential_annotation_text tb ch = reported tb ch (page_spans tb)"
  by (simp add: find_potential_annotation_text_def foldl_find_in_block page_spans_def)

lemma reported_mem:
  "sp \<in> set spans \<Longrightarrow> examine_span tb ch sp = Some a \<Longrightarrow> a \<in> set (reported tb ch spans)"
  by (force simp: reported_def)

lemma examine_span_color:
  assumes "py_strip (get_text sp) \<noteq> []" and "get_color sp \<noteq> main_color ch"
  shows "\<exists>a. examine_span tb ch sp = Some a \<and>
           pa_text a = py_strip (get_text sp) \<and> pa_font a = span_font sp \<and>
           pa_size a = span_size sp \<and> pa_color a = get_color sp \<and>
           pa_bbox a = span_bbox sp \<and> 3 \<le> pa_score a \<and>
           ''different color'' \<in> set (pa_reasons a)"
proof -
  obtain x0 y0 x1 y1 where b: "span_bbox sp = (x0, y0, x1, y1)"
    by (cases "span_bbox sp") auto
  show ?thesis
    using assms b by (simp add: examine_span_def Let_def)
qed

lemma examine_span_skips_blank:
  "py_strip (get_text sp) = [] \<Longrightarrow> examine_span tb ch sp = None"
  by (simp add: examine_span_def Let_def)

text \<open>
  C9, as amended. Every span of a page whose text is not empty after \<open>strip()\<close>, that
  is, has a character that is not whitespace, and whose colour differs from
  \<open>main_color\<close> is reported by \<open>find_potential_annotation_text\<close>, whatever its font,
  size and position: the entry carries the stripped text, the font, size, colour and
  bounding box of the span, a score of at least 3 and the reason \<open>different color\<close>.
\<close>

theorem different_color_span_reported:
  assumes "sp \<in> set (page_spans tb)"
    and "py_strip (get_text sp) \<noteq> []"
    and "get_color sp \<noteq> main_color ch"
  shows "\<exists>a \<in> set (find_potential_annotation_text tb ch).
           pa_text a = py_strip (get_text sp) \<and> pa_font a = span_font sp \<and>
           pa_size a = span_size sp \<and> pa_color a = get_color sp \<and>
           pa_bbox a = span_bbox sp \<and> 3 \<le> pa_score a \<and>
           ''different color'' \<in> set (pa_reasons a)"
proof -
  obtain a where a: "examine_span tb ch sp = Some a"
    "pa_text a = py_strip (get_text sp) \<and> pa_font a = span_font sp \<and>
           pa_size a = span_size sp \<and> pa_color a = get_color sp \<and>
           pa_bbox a = span_bbox sp \<and> 3 \<le> pa_score a \<and>
           ''different color'' \<in> set (pa_reasons a)"
    using examine_span_color [OF assms(2,3)] by blast
  have "a \<in> set (find_potential_annotation_text tb ch)"
    using assms(1) a(1) by (simp add: find_potential_annotation_text_spans reported_mem)
  then show ?thesis using a(2) by blast
qed

text \<open>
  C9 as stated fails on a span whose text is not empty but blank. On the example page
  the blue span holding a single blank differs in colour from the page's main colour
  0, and the only entry reported is the red note.
\<close>

theorem blank_span_not_reported:
  "ex_blank \<in> set (page_spans ex_page) \<and>
   get_text ex_blank \<noteq> [] \<and>
   get_color ex_blank \<noteq> main_color (analyze_text_characteristics ex_page) \<and>
   find_potential_annotation_text ex_page (analyze_text_characteristics ex_page) =
     [\<lparr>pa_text = ''note'', pa_font = ''Times'', pa_size = 9, pa_color = 16711680,
       pa_bbox = (300, 400, 340, 409), pa_score = 8,
       pa_reasons = [''different font'', ''different size'', ''different color'', ''short text''],
       pa_in_margin = False\<rparr>]"
  by code_simp

text \<open>The amended statement at the red note of the example page.\<close>

theorem different_color_span_reported_witness:
  "\<exists>a \<in> set (find_potential_annotation_text ex_page (analyze_text_characteristics ex_page)).
      pa_text a = ''note'' \<and> pa_font a = ''Times'' \<and> pa_size a = 9 \<and>
      pa_color a = 16711680 \<and> pa_bbox a = (300, 400, 340, 409) \<and> 3 \<le> pa_score a \<and>
      ''different color'' \<in> set (pa_reasons a)"
proof -
  have h1: "ex_note \<in> set (page_spans ex_page)" by code_simp
  have t: "py_strip (get_text ex_note) = ''note''" by code_simp
  have h2: "py_strip (get_text ex_note) \<noteq> []" unfolding t by simp
  have c: "get_color ex_note = 16711680" by code_simp
  have h3: "get_color ex_note \<noteq> main_color (analyze_text_characteristics ex_page)"
    unfolding c ex_page_main by simp
  show ?thesis
    using different_color_span_reported [OF h1 h2 h3]
    unfolding t c by (simp add: ex_note_def)
qed

subsection \<open>Extraction of the annotations that are not highlights\<close>

lemma collect_annotations_eq: "collect_annotations page acc = acc @ kept page"
  by (induction page arbitrary: acc) (simp_all add: kept_def non_highlight_def Let_def)

lemma extract_pages_append:
  "extract_pages doc (xs @ ys) acc =
     (case extract_pages doc xs acc of Inl e \<Rightarrow> Inl e | Inr acc' \<Rightarrow> extract_pages doc ys acc')"
  by (induction xs arbitrary: acc) (simp_all add: Let_def)

lemma extract_pages_ok:
  "\<forall>p \<in> set ps. p < length doc \<Longrightarrow>
   \<exists>r. extract_pages doc ps acc = Inr r \<and>
       (distinct (map fst acc) \<longrightarrow> distinct (map fst r)) \<and>
       (\<forall>p. map_of r p =
          (if p \<in> set ps \<and> kept (doc ! p) \<noteq> [] then Some (kept (doc ! p)) else map_of acc p))"
proof (induction ps arbitrary: acc)
  case Nil
  then show ?case by simp
next
  case (Cons q ps)
  let ?acc' = "if kept (doc ! q) \<noteq> [] then AList.update q (kept (doc ! q)) acc else acc"
  have q: "q < length doc" and rest: "\<forall>p \<in> set ps. p < length doc" using Cons.prems by simp_all
  obtain r where r: "extract_pages doc ps ?acc' = Inr r"
      "distinct (map fst ?acc') \<longrightarrow> distinct (map fst r)"
      "\<forall>p. map_of r p =
          (if p \<in> set ps \<and> kept (doc ! p) \<noteq> [] then Some (kept (doc ! p)) else map_of ?acc' p)"
    using Cons.IH [OF rest, of ?acc'] by blast
  have 1: "extract_pages doc (q # ps) acc = Inr r"
    using q r(1) by (simp add: collect_annotations_eq Let_def)
  have 2: "distinct (map fst acc) \<longrightarrow> distinct (map fst r)"
    using r(2) by (simp add: AList.distinct_update)
  have 3: "\<forall>p. map_of r p =
          (if p \<in> set (q # ps) \<and> kept (doc ! p) \<noteq> [] then Some (kept (doc ! p)) else map_of acc p)"
    using r(3) by (auto simp: AList.update_conv')
  show ?case using 1 2 3 by blast
qed

lemma set_pages_to_process:
  "set (pages_to_process n pf) =
     {p. p < n \<and> (case pf of None \<Rightarrow> True | Some F \<Rightarrow> p |\<in>| F)}"
  by (cases pf) (auto simp: pages_to_process_def)

lemma pages_to_process_bound: "\<forall>p \<in> set (pages_to_process n pf). p < n"
  by (simp add: set_pages_to_process)

lemma extract_batches_eq:
  assumes "fitz_open fs pdf_path = Inr doc" and "0 < batch_size"
  shows "extract_batches fs pdf_path pages batch_size batch_start acc =
           extract_pages doc (drop batch_start pages) acc"
  using assms
proof (induction fs pdf_path pages batch_size batch_start acc rule: extract_batches.induct)
  case (1 fs pdf_path pages batch_size batch_start by_page)
  show ?case
  proof (cases "batch_start \<ge> length pages")
    case True
    then show ?thesis using 1(3) by (subst extract_batches.simps) simp
  next
    case False
    let ?e = "min (batch_start + batch_size) (length pages)"
    let ?b = "take (?e - batch_start) (drop batch_start pages)"
    have split: "drop batch_start pages = ?b @ drop (batch_start + batch_size) pages"
    proof -
      have "?e - batch_start = min batch_size (length pages - batch_start)" using False by auto
      moreover have "take (min batch_size (length pages - batch_start)) (drop batch_start pages) =
          take batch_size (drop batch_start pages)"
        by (cases "batch_size \<le> length pages - batch_start") (simp_all add: min_def)
      ultimately have t: "?b = take batch_size (drop batch_start pages)" by simp
      have "take batch_size (drop batch_start pages) @ drop batch_size (drop batch_start pages) =
          drop batch_start pages"
        by (rule append_take_drop_id)
      then show ?thesis unfolding t by (simp add: add.commute)
    qed
    show ?thesis
    proof (cases "extract_pages doc ?b by_page")
      case (Inl e)
      have "extract_batches fs pdf_path pages batch_size batch_start by_page = Inl e"
        using False 1(2,3) Inl by (subst extract_batches.simps) (simp add: Let_def)
      moreover have "extract_pages doc (drop batch_start pages) by_page = Inl e"
        by (subst split, subst extract_pages_append) (simp add: Inl)
      ultimately show ?thesis by simp
    next
      case (Inr acc')
      have ih: "extract_batches fs pdf_path pages batch_size (batch_start + batch_size) acc' =
          extract_pages doc (drop (batch_start + batch_size) pages) acc'"
        using 1(1) [of ?e ?b doc acc'] False 1(2,3) Inr by simp
      have "extract_batches fs pdf_path pages batch_size batch_start by_page =
          extract_batches fs pdf_path pages batch_size (batch_start + batch_size) acc'"
        using False 1(2,3) Inr by (subst extract_batches.simps) (simp add: Let_def)
      moreover have "extract_pages doc (drop batch_start pages) by_page =
          extract_pages doc (drop (batch_start + batch_size) pages) acc'"
        by (subst split, subst extract_pages_append) (simp add: Inr)
      ultimately show ?thesis using ih by simp
    qed
  qed
qed

lemma memory_efficient_body_eq:
  "get_annotations_memory_efficient_body fs pdf_path pf = get_annotations_standard_body fs pdf_path pf"
proof (cases "fitz_open fs pdf_path")
  case (Inl e)
  then show ?thesis
    by (simp add: get_annotations_memory_efficient_body_def get_annotations_standard_body_def)
next
  case (Inr doc)
  have "0 < max 1 (min 10 (length (pages_to_process (length doc) pf) div 4))" by simp
  then show ?thesis
    using Inr extract_batches_eq [OF Inr]
    by (simp add: get_annotations_memory_efficient_body_def get_annotations_standard_body_def Let_def)
qed

lemma memory_efficient_eq:
  "get_annotations_memory_efficient fs pdf_path pf = get_annotations_standard fs pdf_path pf"
  by (simp add: get_annotations_memory_efficient_def get_annotations_standard_def
      memory_efficient_body_eq)

lemma get_non_highlight_eq:
  "get_non_highlight_annotations fs pdf_path pf = get_annotations_standard fs pdf_path pf"
  by (simp add: get_non_highlight_annotations_def memory_efficient_eq)

lemma fitz_open_Pdf: "fitz_open fs pdf_path = Inr doc \<longleftrightarrow> fs pdf_path = Some (Pdf doc)"
  by (simp add: fitz_open_def split: option.splits pdf_file.splits)

lemma standard_result:
  assumes "fitz_open fs pdf_path = Inr doc"
  shows "distinct (map fst (get_annotations_standard fs pdf_path pf)) \<and>
         (\<forall>p. map_of (get_annotations_standard fs pdf_path pf) p =
            (if p \<in> set (pages_to_process (length doc) pf) \<and> kept (doc ! p) \<noteq> []
             then Some (kept (doc ! p)) else None))"
proof -
  obtain r where r: "extract_pages doc (pages_to_process (length doc) pf) [] = Inr r"
      "distinct (map fst ([] :: annotations_by_page)) \<longrightarrow> distinct (map fst r)"
      "\<forall>p. map_of r p =
          (if p \<in> set (pages_to_process (length doc) pf) \<and> kept (doc ! p) \<noteq> []
           then Some (kept (doc ! p)) else map_of ([] :: annotations_by_page) p)"
    using extract_pages_ok [OF pages_to_process_bound, of doc pf "[]"] by blast
  have "get_annotations_standard fs pdf_path pf = r"
    using r(1) assms
    by (simp add: get_annotations_standard_def get_annotations_standard_body_def)
  then show ?thesis using r(2,3) by simp
qed

lemma kept_mem_iff:
  assumes "a \<in> set page"
  shows "extract_annotation_data a (snd (annot_type a)) \<in> set (kept page) \<longleftrightarrow> non_highlight a"
proof
  assume "extract_annotation_data a (snd (annot_type a)) \<in> set (kept page)"
  then obtain b where b: "non_highlight b"
      "extract_annotation_data b (snd (annot_type b)) = extract_annotation_data a (snd (annot_type a))"
    by (auto simp: kept_def)
  have "d_type (extract_annotation_data b (snd (annot_type b))) =
        d_type (extract_annotation_data a (snd (annot_type a)))"
    using b(2) by simp
  then have "annot_type b = annot_type a" by (simp add: extract_annotation_data_def Let_def)
  then show "non_highlight a" using b(1) by (simp add: non_highlight_def)
next
  assume "non_highlight a"
  then show "extract_annotation_data a (snd (annot_type a)) \<in> set (kept page)"
    using assms by (simp add: kept_def)
qed

lemma kept_Nil_iff: "kept page \<noteq> [] \<longleftrightarrow> (\<exists>a \<in> set page. non_highlight a)"
  by (auto simp: kept_def filter_empty_conv)

text \<open>
  C1. When the source opens, the entries extracted for a processed page are the
  extracted data of exactly those annotations of the page whose type name, in lower
  case, is not \<open>highlight\<close>, in the page's order; so an annotation of a processed
  page is extracted if and only if it is not a highlight. This holds for
  \<open>_get_annotations_standard\<close>, for \<open>_get_annotations_memory_efficient\<close>, which
  returns the same dictionary, and for \<open>get_non_highlight_annotations\<close>.
\<close>

theorem non_highlight_extracted:
  assumes "fs pdf_path = Some (Pdf doc)"
    and "page_num \<in> set (pages_to_process (length doc) page_filter)"
  shows "page_entries (get_annotations_standard fs pdf_path page_filter) page_num =
           map (\<lambda>a. extract_annotation_data a (snd (annot_type a)))
             (filter (\<lambda>a. py_lower (snd (annot_type a)) \<noteq> ''highlight'') (doc ! page_num)) \<and>
         get_annotations_memory_efficient fs pdf_path page_filter =
           get_annotations_standard fs pdf_path page_filter \<and>
         get_non_highlight_annotations fs pdf_path page_filter =
           get_annotations_standard fs pdf_path page_filter \<and>
         (\<forall>a \<in> set (doc ! page_num).
            extract_annotation_data a (snd (annot_type a))
              \<in> set (page_entries (get_non_highlight_annotations fs pdf_path page_filter) page_num)
            \<longleftrightarrow> py_lower (snd (annot_type a)) \<noteq> ''highlight'')"
proof -
  have o: "fitz_open fs pdf_path = Inr doc" using assms(1) by (simp add: fitz_open_Pdf)
  have m: "map_of (get_annotations_standard fs pdf_path page_filter) page_num =
      (if kept (doc ! page_num) \<noteq> [] then Some (kept (doc ! page_num)) else None)"
    using standard_result [OF o, of page_filter] assms(2) by simp
  have e: "page_entries (get_annotations_standard fs pdf_path page_filter) page_num =
      kept (doc ! page_num)"
    unfolding page_entries_def m by simp
  have k: "kept (doc ! page_num) =
      map (\<lambda>a. extract_annotation_data a (snd (annot_type a)))
        (filter (\<lambda>a. py_lower (snd (annot_type a)) \<noteq> ''highlight'') (doc ! page_num))"
  proof -
    have "non_highlight = (\<lambda>a. py_lower (snd (annot_type a)) \<noteq> ''highlight'')"
      by (simp add: fun_eq_iff non_highlight_def)
    then show ?thesis by (simp add: kept_def)
  qed
  have i: "\<forall>a \<in> set (doc ! page_num).
            extract_annotation_data a (snd (annot_type a))
              \<in> set (page_entries (get_non_highlight_annotations fs pdf_path page_filter) page_num)
            \<longleftrightarrow> py_lower (snd (annot_type a)) \<noteq> ''highlight''"
    using kept_mem_iff [of _ "doc ! page_num"]
    by (simp add: get_non_highlight_eq e non_highlight_def)
  show ?thesis using e k i memory_efficient_eq get_non_highlight_eq by simp
qed

text \<open>
  C10. \<open>get_non_highlight_annotations\<close> returns a dictionary on every input: an
  exception raised in the \<open>try\<close> block of either extraction function, such as that of
  a source that does not open, is answered with the empty dictionary. When the source
  opens, the \<open>try\<close> block ends without an exception, and the keys of the dictionary
  are exactly the processed pages that have an annotation that is not a highlight.
\<close>

theorem extraction_never_raises:
  "(isl (get_annotations_standard_body fs pdf_path page_filter) \<longrightarrow>
      get_annotations_standard fs pdf_path page_filter = []) \<and>
   (isl (get_annotations_memory_efficient_body fs pdf_path page_filter) \<longrightarrow>
      get_annotations_memory_efficient fs pdf_path page_filter = []) \<and>
   (isl (fitz_open fs pdf_path) \<longrightarrow>
      get_non_highlight_annotations fs pdf_path page_filter = []) \<and>
   (\<forall>doc. fs pdf_path = Some (Pdf doc) \<longrightarrow>
      get_annotations_standard_body fs pdf_path page_filter =
        Inr (get_annotations_standard fs pdf_path page_filter) \<and>
      get_annotations_memory_efficient_body fs pdf_path page_filter =
        Inr (get_annotations_memory_efficient fs pdf_path page_filter) \<and>
      get_non_highlight_annotations fs pdf_path page_filter =
        get_annotations_memory_efficient fs pdf_path page_filter \<and>
      get_annotations_memory_efficient fs pdf_path page_filter =
        get_annotations_standard fs pdf_path page_filter \<and>
      distinct (map fst (get_non_highlight_annotations fs pdf_path page_filter)) \<and>
      fst ` set (get_non_highlight_annotations fs pdf_path page_filter) =
        {p \<in> set (pages_to_process (length doc) page_filter).
           \<exists>a \<in> set (doc ! p). py_lower (snd (annot_type a)) \<noteq> ''highlight''})"
proof (intro conjI impI allI)
  assume "isl (get_annotations_standard_body fs pdf_path page_filter)"
  then show "get_annotations_standard fs pdf_path page_filter = []"
    by (auto simp: get_annotations_standard_def isl_def)
next
  assume "isl (get_annotations_memory_efficient_body fs pdf_path page_filter)"
  then show "get_annotations_memory_efficient fs pdf_path page_filter = []"
    by (auto simp: get_annotations_memory_efficient_def isl_def)
next
  assume "isl (fitz_open fs pdf_path)"
  then show "get_non_highlight_annotations fs pdf_path page_filter = []"
    by (auto simp: get_non_highlight_eq get_annotations_standard_def
        get_annotations_standard_body_def isl_def)
next
  fix doc assume "fs pdf_path = Some (Pdf doc)"
  then have d: "fitz_open fs pdf_path = Inr doc" by (simp add: fitz_open_Pdf)
  obtain r where r: "extract_pages doc (pages_to_process (length doc) page_filter) [] = Inr r"
    using extract_pages_ok [OF pages_to_process_bound, of doc page_filter "[]"] by blast
  then have b: "get_annotations_standard_body fs pdf_path page_filter = Inr r"
    using d by (simp add: get_annotations_standard_body_def)
  then show "get_annotations_standard_body fs pdf_path page_filter =
        Inr (get_annotations_standard fs pdf_path page_filter)"
    by (simp add: get_annotations_standard_def)
  then show "get_annotations_memory_efficient_body fs pdf_path page_filter =
        Inr (get_annotations_memory_efficient fs pdf_path page_filter)"
    by (simp add: memory_efficient_body_eq memory_efficient_eq)
  show "get_non_highlight_annotations fs pdf_path page_filter =
        get_annotations_memory_efficient fs pdf_path page_filter"
    by (simp add: get_non_highlight_eq memory_efficient_eq)
  show "get_annotations_memory_efficient fs pdf_path page_filter =
        get_annotations_standard fs pdf_path page_filter"
    by (rule memory_efficient_eq)
  show "distinct (map fst (get_non_highlight_annotations fs pdf_path page_filter))"
    using standard_result [OF d, of page_filter] by (simp add: get_non_highlight_eq)
  have "fst ` set (get_annotations_standard fs pdf_path page_filter) =
      dom (map_of (get_annotations_standard fs pdf_path page_filter))"
    by (simp add: dom_map_of_conv_image_fst)
  also have "\<dots> = {p \<in> set (pages_to_process (length doc) page_filter). kept (doc ! p) \<noteq> []}"
    using standard_result [OF d, of page_filter] by (auto simp: dom_def)
  also have "\<dots> = {p \<in> set (pages_to_process (length doc) page_filter).
           \<exists>a \<in> set (doc ! p). py_lower (snd (annot_type a)) \<noteq> ''highlight''}"
    by (simp add: kept_Nil_iff non_highlight_def)
  finally show "fst ` set (get_non_highlight_annotations fs pdf_path page_filter) =
        {p \<in> set (pages_to_process (length doc) page_filter).
           \<exists>a \<in> set (doc ! p). py_lower (snd (annot_type a)) \<noteq> ''highlight''}"
    by (simp add: get_non_highlight_eq)
qed

text \<open>The first two pages of the example source: only the free-text note is extracted.\<close>

theorem non_highlight_extracted_witness:
  "page_entries (get_non_highlight_annotations ex_fs ''source.pdf'' None) 0 =
     [extract_annotation_data (ex_annot (2, ''FreeText'') ''see above'') ''FreeText''] \<and>
   page_entries (get_non_highlight_annotations ex_fs ''source.pdf'' None) 1 = [] \<and>
   extract_annotation_data (ex_annot (8, ''Highlight'') ''marked'') ''Highlight''
     \<notin> set (page_entries (get_non_highlight_annotations ex_fs ''source.pdf'' None) 0)"
proof -
  have f: "ex_fs ''source.pdf'' = Some (Pdf ex_source)" by (simp add: ex_fs_def)
  have p0: "0 \<in> set (pages_to_process (length ex_source) None)" by code_simp
  have p1: "1 \<in> set (pages_to_process (length ex_source) None)" by code_simp
  have k0: "map (\<lambda>a. extract_annotation_data a (snd (annot_type a)))
             (filter (\<lambda>a. py_lower (snd (annot_type a)) \<noteq> ''highlight'') (ex_source ! 0)) =
        [extract_annotation_data (ex_annot (2, ''FreeText'') ''see above'') ''FreeText'']"
    by code_simp
  have k1: "map (\<lambda>a. extract_annotation_data a (snd (annot_type a)))
             (filter (\<lambda>a. py_lower (snd (annot_type a)) \<noteq> ''highlight'') (ex_source ! 1)) = []"
    by code_simp
  have h: "ex_annot (8, ''Highlight'') ''marked'' \<in> set (ex_source ! 0)" by code_simp
  have t: "snd (annot_type (ex_annot (8, ''Highlight'') ''marked'')) = ''Highlight''"
    by (simp add: ex_annot_def)
  have l: "py_lower ''Highlight'' = ''highlight''" by code_simp
  show ?thesis
    using non_highlight_extracted [where fs = ex_fs and pdf_path = "''source.pdf''", OF f p0]
      non_highlight_extracted [where fs = ex_fs and pdf_path = "''source.pdf''", OF f p1] h
    unfolding k0 k1 by (auto simp: t l)
qed

text \<open>
  A file that is not a PDF, a missing file, and the example source without and with a
  page filter.
\<close>

theorem extraction_never_raises_witness:
  "get_non_highlight_annotations ex_fs ''broken.pdf'' None = [] \<and>
   get_non_highlight_annotations ex_fs ''missing.pdf'' None = [] \<and>
   get_annotations_standard ex_fs ''broken.pdf'' None = [] \<and>
   get_annotations_memory_efficient ex_fs ''broken.pdf'' None = [] \<and>
   fst ` set (get_non_highlight_annotations ex_fs ''source.pdf'' None) = {0, 2} \<and>
   fst ` set (get_non_highlight_annotations ex_fs ''source.pdf'' (Some {|1, 2, 7|})) = {2}"
proof -
  have b: "isl (fitz_open ex_fs ''broken.pdf'')" "isl (fitz_open ex_fs ''missing.pdf'')"
    by code_simp+
  have b1: "isl (get_annotations_standard_body ex_fs ''broken.pdf'' None)"
    "isl (get_annotations_memory_efficient_body ex_fs ''broken.pdf'' None)"
    by code_simp+
  have f: "ex_fs ''source.pdf'' = Some (Pdf ex_source)" by (simp add: ex_fs_def)
  have k: "{p \<in> set (pages_to_process (length ex_source) None).
           \<exists>a \<in> set (ex_source ! p). py_lower (snd (annot_type a)) \<noteq> ''highlight''} = {0, 2}"
    by code_simp
  have k2: "{p \<in> set (pages_to_process (length ex_source) (Some {|1, 2, 7|})).
           \<exists>a \<in> set (ex_source ! p). py_lower (snd (annot_type a)) \<noteq> ''highlight''} = {2}"
    by code_simp
  have 1: "get_non_highlight_annotations ex_fs ''broken.pdf'' None = []"
    using extraction_never_raises [of ex_fs "''broken.pdf''" None] b(1) by blast
  have 2: "get_non_highlight_annotations ex_fs ''missing.pdf'' None = []"
    using extraction_never_raises [of ex_fs "''missing.pdf''" None] b(2) by blast
  have 3: "get_annotations_standard ex_fs ''broken.pdf'' None = []"
    using extraction_never_raises [of ex_fs "''broken.pdf''" None] b1(1) by blast
  have 4: "get_annotations_memory_efficient ex_fs ''broken.pdf'' None = []"
    using extraction_never_raises [of ex_fs "''broken.pdf''" None] b1(2) by blast
  have 5: "fst ` set (get_non_highlight_annotations ex_fs ''source.pdf'' None) =
      {p \<in> set (pages_to_process (length ex_source) None).
           \<exists>a \<in> set (ex_source ! p). py_lower (snd (annot_type a)) \<noteq> ''highlight''}"
    using extraction_never_raises [of ex_fs "''source.pdf''" None] f by blast
  have 6: "fst ` set (get_non_highlight_annotations ex_fs ''source.pdf'' (Some {|1, 2, 7|})) =
      {p \<in> set (pages_to_process (length ex_source) (Some {|1, 2, 7|})).
           \<exists>a \<in> set (ex_source ! p). py_lower (snd (annot_type a)) \<noteq> ''highlight''}"
    using extraction_never_raises [of ex_fs "''source.pdf''" "Some {|1, 2, 7|}"] f by blast
  show ?thesis using 1 2 3 4 5 6 unfolding k k2 by simp
qed

subsection \<open>The annotation debugger\<close>

lemma debug_annots_total:
  "dbg_total (snd (foldl debug_annot (n, st) as)) = dbg_total st + length as"
  by (induction as arbitrary: n st) (simp_all add: debug_annot_def Let_def)

lemma debug_annots_report:
  "filter is_report_line (dbg_printed (snd (foldl debug_annot (n, st) as))) =
     filter is_report_line (dbg_printed st) @ concat (map annot_report as)"
  by (induction as arbitrary: n st) (simp_all add: debug_annot_def Let_def annot_report_def)

lemma debug_annots_pages:
  "filter is_page_line (dbg_printed (snd (foldl debug_annot (n, st) as))) =
     filter is_page_line (dbg_printed st)"
  by (induction as arbitrary: n st) (simp_all add: debug_annot_def Let_def)

lemma debug_page_total:
  "dbg_total (debug_page doc st p) = dbg_total st + length (doc ! p)"
proof (cases "doc ! p = []")
  case True
  then show ?thesis by (simp add: debug_page_def Let_def)
next
  case False
  let ?st1 = "st\<lparr>dbg_printed := dbg_printed st @ [PageLine (p + 1)]\<rparr>"
  obtain n st2 where f: "foldl debug_annot (0, ?st1) (doc ! p) = (n, st2)"
    by (cases "foldl debug_annot (0, ?st1) (doc ! p)") auto
  have "dbg_total st2 = dbg_total ?st1 + length (doc ! p)"
    using debug_annots_total [of 0 ?st1 "doc ! p"] f by simp
  then show ?thesis using False f by (simp add: debug_page_def Let_def)
qed

lemma debug_page_report:
  "filter is_report_line (dbg_printed (debug_page doc st p)) =
     filter is_report_line (dbg_printed st) @ concat (map annot_report (doc ! p))"
proof (cases "doc ! p = []")
  case True
  then show ?thesis by (simp add: debug_page_def Let_def)
next
  case False
  let ?st1 = "st\<lparr>dbg_printed := dbg_printed st @ [PageLine (p + 1)]\<rparr>"
  obtain n st2 where f: "foldl debug_annot (0, ?st1) (doc ! p) = (n, st2)"
    by (cases "foldl debug_annot (0, ?st1) (doc ! p)") auto
  have "filter is_report_line (dbg_printed st2) =
      filter is_report_line (dbg_printed ?st1) @ concat (map annot_report (doc ! p))"
    using debug_annots_report [of 0 ?st1 "doc ! p"] f by simp
  then show ?thesis using False f by (simp add: debug_page_def Let_def)
qed

lemma debug_page_pages:
  "filter is_page_line (dbg_printed (debug_page doc st p)) =
     filter is_page_line (dbg_printed st) @ [PageLine (p + 1)]"
proof (cases "doc ! p = []")
  case True
  then show ?thesis by (simp add: debug_page_def Let_def)
next
  case False
  let ?st1 = "st\<lparr>dbg_printed := dbg_printed st @ [PageLine (p + 1)]\<rparr>"
  obtain n st2 where f: "foldl debug_annot (0, ?st1) (doc ! p) = (n, st2)"
    by (cases "foldl debug_annot (0, ?st1) (doc ! p)") auto
  have "filter is_page_line (dbg_printed st2) = filter is_page_line (dbg_printed ?st1)"
    using debug_annots_pages [of 0 ?st1 "doc ! p"] f by simp
  then show ?thesis using False f by (simp add: debug_page_def Let_def)
qed

lemma debug_pages_total:
  "dbg_total (foldl (debug_page doc) st ps) =
     dbg_total st + length (concat (map (\<lambda>p. doc ! p) ps))"
  by (induction ps arbitrary: st) (simp_all add: debug_page_total)

lemma debug_pages_report:
  "filter is_report_line (dbg_printed (foldl (debug_page doc) st ps)) =
     filter is_report_line (dbg_printed st) @
       concat (map annot_report (concat (map (\<lambda>p. doc ! p) ps)))"
  by (induction ps arbitrary: st) (simp_all add: debug_page_report)

lemma debug_pages_pages:
  "filter is_page_line (dbg_printed (foldl (debug_page doc) st ps)) =
     filter is_page_line (dbg_printed st) @ map (\<lambda>p. PageLine (p + 1)) ps"
  by (induction ps arbitrary: st) (simp_all add: debug_page_pages)

lemma debug_summary_lines:
  "filter is_report_line (debug_summary st) = []" "filter is_page_line (debug_summary st) = []"
  by (auto simp: debug_summary_def filter_empty_conv split: prod.splits)

lemma all_pages: "map (\<lambda>p. doc ! p) [0 ..< length doc] = doc"
  by (rule map_nth)

text \<open>
  C7. On a PDF that opens, \<open>debug_pdf_annotations\<close> announces every page in order and
  reports every annotation of every page in order, highlights included: the type line
  of each is followed by the verdict \<open>EXCLUDED\<close> when the lower-cased type name is
  \<open>highlight\<close> and \<open>INCLUDED\<close> otherwise. It returns \<open>True\<close> if and only if the path
  holds a PDF that has at least one annotation.
\<close>

theorem debug_reports_every_annotation:
  "(fs pdf_path = Some (Pdf doc) \<longrightarrow>
      filter is_page_line (snd (debug_pdf_annotations fs pdf_path)) =
        map (\<lambda>page_num. PageLine (page_num + 1)) [0 ..< length doc] \<and>
      filter is_report_line (snd (debug_pdf_annotations fs pdf_path)) =
        concat (map (\<lambda>a. [TypeLine (snd (annot_type a)) (fst (annot_type a)),
                           VerdictLine (if py_lower (snd (annot_type a)) = ''highlight''
                                        then EXCLUDED else INCLUDED)])
                  (concat doc)) \<and>
      fst (debug_pdf_annotations fs pdf_path) = (\<exists>page \<in> set doc. page \<noteq> [])) \<and>
   (fst (debug_pdf_annotations fs pdf_path) \<longleftrightarrow>
      (\<exists>d. fs pdf_path = Some (Pdf d) \<and> (\<exists>page \<in> set d. page \<noteq> [])))"
proof -
  have pdf: "\<And>d. fs pdf_path = Some (Pdf d) \<Longrightarrow>
      filter is_page_line (snd (debug_pdf_annotations fs pdf_path)) =
        map (\<lambda>page_num. PageLine (page_num + 1)) [0 ..< length d] \<and>
      filter is_report_line (snd (debug_pdf_annotations fs pdf_path)) =
        concat (map annot_report (concat d)) \<and>
      fst (debug_pdf_annotations fs pdf_path) = (\<exists>page \<in> set d. page \<noteq> [])"
  proof -
    fix d assume d: "fs pdf_path = Some (Pdf d)"
    let ?st0 = "\<lparr>dbg_total = 0, dbg_types = [],
                 dbg_printed = [PdfLine pdf_path, TotalPagesLine (length d), RuleLine]\<rparr>"
    let ?st = "foldl (debug_page d) ?st0 [0 ..< length d]"
    have r: "debug_pdf_annotations fs pdf_path =
        (dbg_total ?st > 0, dbg_printed ?st @ debug_summary ?st)"
      using d by (simp add: debug_pdf_annotations_def path_exists_def fitz_open_def Let_def)
    have 1: "filter is_page_line (dbg_printed ?st @ debug_summary ?st) =
        map (\<lambda>page_num. PageLine (page_num + 1)) [0 ..< length d]"
      by (simp add: debug_pages_pages debug_summary_lines)
    have 2: "filter is_report_line (dbg_printed ?st @ debug_summary ?st) =
        concat (map annot_report (concat d))"
      by (simp add: debug_pages_report debug_summary_lines all_pages)
    have "dbg_total ?st = length (concat d)"
      by (simp add: debug_pages_total all_pages)
    then have 3: "(dbg_total ?st > 0) = (\<exists>page \<in> set d. page \<noteq> [])"
      by auto
    show "filter is_page_line (snd (debug_pdf_annotations fs pdf_path)) =
        map (\<lambda>page_num. PageLine (page_num + 1)) [0 ..< length d] \<and>
      filter is_report_line (snd (debug_pdf_annotations fs pdf_path)) =
        concat (map annot_report (concat d)) \<and>
      fst (debug_pdf_annotations fs pdf_path) = (\<exists>page \<in> set d. page \<noteq> [])"
      unfolding r using 1 2 3 by simp
  qed
  have rep: "annot_report = (\<lambda>a. [TypeLine (snd (annot_type a)) (fst (annot_type a)),
                           VerdictLine (if py_lower (snd (annot_type a)) = ''highlight''
                                        then EXCLUDED else INCLUDED)])"
    by (simp add: fun_eq_iff annot_report_def)
  have nopdf: "(\<forall>d. fs pdf_path \<noteq> Some (Pdf d)) \<Longrightarrow> \<not> fst (debug_pdf_annotations fs pdf_path)"
    by (auto simp: debug_pdf_annotations_def path_exists_def fitz_open_def
        split: option.splits pdf_file.splits)
  have iff: "fst (debug_pdf_annotations fs pdf_path) \<longleftrightarrow>
      (\<exists>d. fs pdf_path = Some (Pdf d) \<and> (\<exists>page \<in> set d. page \<noteq> []))"
  proof (cases "\<exists>d. fs pdf_path = Some (Pdf d)")
    case True
    then obtain d where d: "fs pdf_path = Some (Pdf d)" by blast
    then show ?thesis using pdf [OF d] by simp
  next
    case False
    then show ?thesis using nopdf by blast
  qed
  show ?thesis using pdf [of doc] iff unfolding rep by blast
qed

text \<open>The example source, the target without annotations, and the file that is not a PDF.\<close>

theorem debug_reports_every_annotation_witness:
  "filter is_page_line (snd (debug_pdf_annotations ex_fs ''source.pdf'')) =
     [PageLine 1, PageLine 2, PageLine 3] \<and>
   filter is_report_line (snd (debug_pdf_annotations ex_fs ''source.pdf'')) =
     [TypeLine ''Highlight'' 8, VerdictLine EXCLUDED, TypeLine ''FreeText'' 2, VerdictLine INCLUDED,
      TypeLine ''HIGHLIGHT'' 8, VerdictLine EXCLUDED, TypeLine ''Square'' 4, VerdictLine INCLUDED] \<and>
   fst (debug_pdf_annotations ex_fs ''source.pdf'') \<and>
   \<not> fst (debug_pdf_annotations ex_fs ''target.pdf'') \<and>
   \<not> fst (debug_pdf_annotations ex_fs ''broken.pdf'')"
proof -
  have f: "ex_fs ''source.pdf'' = Some (Pdf ex_source)" by (simp add: ex_fs_def)
  have t: "ex_fs ''target.pdf'' = Some (Pdf ex_target)" by (simp add: ex_fs_def)
  have b: "ex_fs ''broken.pdf'' = Some NotPdf" by (simp add: ex_fs_def)
  have p: "map (\<lambda>page_num. PageLine (page_num + 1)) [0 ..< length ex_source] =
      [PageLine 1, PageLine 2, PageLine 3]" by code_simp
  have r: "concat (map (\<lambda>a. [TypeLine (snd (annot_type a)) (fst (annot_type a)),
                           VerdictLine (if py_lower (snd (annot_type a)) = ''highlight''
                                        then EXCLUDED else INCLUDED)])
                  (concat ex_source)) =
     [TypeLine ''Highlight'' 8, VerdictLine EXCLUDED, TypeLine ''FreeText'' 2, VerdictLine INCLUDED,
      TypeLine ''HIGHLIGHT'' 8, VerdictLine EXCLUDED, TypeLine ''Square'' 4, VerdictLine INCLUDED]"
    by code_simp
  have e: "\<exists>page \<in> set ex_source. page \<noteq> []" by code_simp
  have ne: "\<not> (\<exists>page \<in> set ex_target. page \<noteq> [])" by code_simp
  have 1: "filter is_page_line (snd (debug_pdf_annotations ex_fs ''source.pdf'')) =
        map (\<lambda>page_num. PageLine (page_num + 1)) [0 ..< length ex_source] \<and>
      filter is_report_line (snd (debug_pdf_annotations ex_fs ''source.pdf'')) =
        concat (map (\<lambda>a. [TypeLine (snd (annot_type a)) (fst (annot_type a)),
                           VerdictLine (if py_lower (snd (annot_type a)) = ''highlight''
                                        then EXCLUDED else INCLUDED)])
                  (concat ex_source)) \<and>
      fst (debug_pdf_annotations ex_fs ''source.pdf'') = (\<exists>page \<in> set ex_source. page \<noteq> [])"
    using debug_reports_every_annotation [of ex_fs "''source.pdf''" ex_source] f by blast
  have 2: "fst (debug_pdf_annotations ex_fs ''target.pdf'') = (\<exists>page \<in> set ex_target. page \<noteq> [])"
    using debug_reports_every_annotation [of ex_fs "''target.pdf''" ex_target] t by blast
  have 3: "\<not> fst (debug_pdf_annotations ex_fs ''broken.pdf'')"
    using debug_reports_every_annotation [of ex_fs "''broken.pdf''" "[]"] b by simp
  show ?thesis using 1 2 3 e ne unfolding p r by simp
qed

subsection \<open>What a run of the copy utility writes\<close>

lemma copy_annotations_to_pdf_frame:
  "snd (copy_annotations_to_pdf L fs target_pdf_path by_page output_path) = fs \<or>
   (\<exists>doc'. snd (copy_annotations_to_pdf L fs target_pdf_path by_page output_path) =
      fs(output_path \<mapsto> Pdf doc'))"
  by (auto simp: copy_annotations_to_pdf_def Let_def split: sum.splits prod.splits)

lemma main_frame:
  "snd (main L fs source_pdf target_pdf output_pdf pages_spec) = fs \<or>
   (\<exists>doc'. snd (main L fs source_pdf target_pdf output_pdf pages_spec) =
      fs(output_pdf \<mapsto> Pdf doc'))"
proof -
  have c: "\<And>a. snd (copy_annotations_to_pdf L fs target_pdf a output_pdf) = fs \<or>
   (\<exists>doc'. snd (copy_annotations_to_pdf L fs target_pdf a output_pdf) =
      fs(output_pdf \<mapsto> Pdf doc'))"
    by (rule copy_annotations_to_pdf_frame)
  show ?thesis
    unfolding main_def Let_def
    using c by (auto split: sum.splits option.splits py_error.splits)
qed

text \<open>
  C4, as amended. A run of the copy utility, and \<open>copy_annotations_to_pdf\<close> alone,
  leave every file other than the one at the output path as it was: the file system
  afterwards is the one before, or the one before with a PDF written at the output
  path. So the source file and the target file are unchanged whenever the output path
  is not their path.
\<close>

theorem copy_writes_only_output:
  "(path \<noteq> output_pdf \<longrightarrow>
      snd (main L fs source_pdf target_pdf output_pdf pages_spec) path = fs path \<and>
      snd (copy_annotations_to_pdf L fs target_pdf by_page output_pdf) path = fs path) \<and>
   (source_pdf \<noteq> output_pdf \<longrightarrow>
      snd (main L fs source_pdf target_pdf output_pdf pages_spec) source_pdf = fs source_pdf) \<and>
   (target_pdf \<noteq> output_pdf \<longrightarrow>
      snd (main L fs source_pdf target_pdf output_pdf pages_spec) target_pdf = fs target_pdf)"
proof -
  have m: "\<And>p. p \<noteq> output_pdf \<Longrightarrow>
      snd (main L fs source_pdf target_pdf output_pdf pages_spec) p = fs p"
    using main_frame [of L fs source_pdf target_pdf output_pdf pages_spec] by auto
  have c: "\<And>p. p \<noteq> output_pdf \<Longrightarrow>
      snd (copy_annotations_to_pdf L fs target_pdf by_page output_pdf) p = fs p"
    using copy_annotations_to_pdf_frame [of L fs target_pdf by_page output_pdf] by auto
  show ?thesis using m c by blast
qed

text \<open>
  C4 as stated fails when the output path is the path of the source: nothing in the
  script compares the paths, and the run writes the copy of the target over the
  source file.
\<close>

theorem output_over_source_changes_source:
  "snd (main ex_library ex_fs ''source.pdf'' ''target.pdf'' ''source.pdf'' None) ''source.pdf''
     \<noteq> ex_fs ''source.pdf''"
  by code_simp

text \<open>A run on the example files with an output path of its own.\<close>

theorem copy_writes_only_output_witness:
  "snd (main ex_library ex_fs ''source.pdf'' ''target.pdf'' ''output.pdf'' None) ''source.pdf'' =
     Some (Pdf ex_source) \<and>
   snd (main ex_library ex_fs ''source.pdf'' ''target.pdf'' ''output.pdf'' None) ''target.pdf'' =
     Some (Pdf ex_target) \<and>
   snd (main ex_library ex_fs ''source.pdf'' ''target.pdf'' ''output.pdf'' None) ''output.pdf'' \<noteq>
     ex_fs ''output.pdf''"
proof -
  have s: "''source.pdf'' \<noteq> ''output.pdf''" and t: "''target.pdf'' \<noteq> ''output.pdf''" by simp_all
  have fs: "ex_fs ''source.pdf'' = Some (Pdf ex_source)" "ex_fs ''target.pdf'' = Some (Pdf ex_target)"
    by (simp_all add: ex_fs_def)
  have w: "snd (main ex_library ex_fs ''source.pdf'' ''target.pdf'' ''output.pdf'' None) ''output.pdf'' \<noteq>
     ex_fs ''output.pdf''" by code_simp
  show ?thesis
    using copy_writes_only_output [of "''source.pdf''" "''output.pdf''" ex_library ex_fs
        "''source.pdf''" "''target.pdf''" None "[]"] s t w
    by (simp add: fs)
qed

subsection \<open>The comparison of two renders\<close>

lemma analyze_contours_default_kept:
  assumes "\<forall>c \<in> set contours. rect_h c \<noteq> 0"
  shows "analyze_contours_default contours =
           Inr (map contour_annotation (filter (\<lambda>c. \<not> contourArea c < 100) contours))"
  unfolding analyze_contours_default_def analyze_contours_def
  using analyze_contours_loop_kept [of contours 100 "[]"] assms by simp

lemma find_differences_contours:
  "\<exists>g. fst (snd (find_differences L original_img annotated_img)) =
         lib_find_contours L g RETR_EXTERNAL CHAIN_APPROX_SIMPLE"
  by (auto simp: find_differences_def Let_def split: prod.splits)

lemma detect_pages_all:
  assumes "fs original_pdf = Some (Pdf orig_doc)" and "fs annotated_pdf = Some (Pdf annot_doc)"
    and "\<forall>g. \<forall>c \<in> set (lib_find_contours L g RETR_EXTERNAL CHAIN_APPROX_SIMPLE). rect_h c \<noteq> 0"
    and "\<forall>p \<in> set ps. p < length orig_doc \<and> p < length annot_doc"
  shows "\<exists>n. detect_pages L fs original_pdf annotated_pdf ps total_count reports =
           (None, n, reports @ map (\<lambda>i. report_of L i (orig_doc ! i) (annot_doc ! i)) ps) \<and>
           (n > total_count \<longleftrightarrow>
              (\<exists>i \<in> set ps. pr_annotations (report_of L i (orig_doc ! i) (annot_doc ! i)) \<noteq> []))"
  using assms(4)
proof (induction ps arbitrary: total_count reports)
  case Nil
  then show ?case by simp
next
  case (Cons p ps)
  have p: "p < length orig_doc" "p < length annot_doc" using Cons.prems by simp_all
  have rest: "\<forall>q \<in> set ps. q < length orig_doc \<and> q < length annot_doc" using Cons.prems by simp
  have io: "pdf_page_to_image fs original_pdf p = Inr (orig_doc ! p)"
    using assms(1) p by (simp add: pdf_page_to_image_def fitz_open_def)
  have ia: "pdf_page_to_image fs annotated_pdf p = Inr (annot_doc ! p)"
    using assms(2) p by (simp add: pdf_page_to_image_def fitz_open_def)
  obtain d cs t where fd: "find_differences L (orig_doc ! p) (annot_doc ! p) = (d, cs, t)"
    by (cases "find_differences L (orig_doc ! p) (annot_doc ! p)") auto
  obtain g where "cs = lib_find_contours L g RETR_EXTERNAL CHAIN_APPROX_SIMPLE"
    using find_differences_contours [of L "orig_doc ! p" "annot_doc ! p"] fd by auto
  then have "\<forall>c \<in> set cs. rect_h c \<noteq> 0" using assms(3) by blast
  then have ac: "analyze_contours_default cs =
      Inr (map contour_annotation (filter (\<lambda>c. \<not> contourArea c < 100) cs))"
    by (rule analyze_contours_default_kept)
  let ?anns = "map contour_annotation (filter (\<lambda>c. \<not> contourArea c < 100) cs)"
  let ?total' = "if ?anns \<noteq> [] then total_count + length ?anns else total_count"
  have rp: "report_of L p (orig_doc ! p) (annot_doc ! p) =
      \<lparr>pr_page = p, pr_diff = d, pr_contours = cs, pr_thresh = t, pr_annotations = ?anns,
       pr_saved = (?anns \<noteq> [])\<rparr>"
    using fd by (simp add: report_of_def)
  obtain n where n: "detect_pages L fs original_pdf annotated_pdf ps ?total'
        (reports @ [report_of L p (orig_doc ! p) (annot_doc ! p)]) =
      (None, n, (reports @ [report_of L p (orig_doc ! p) (annot_doc ! p)]) @
         map (\<lambda>i. report_of L i (orig_doc ! i) (annot_doc ! i)) ps)"
      "n > ?total' \<longleftrightarrow>
         (\<exists>i \<in> set ps. pr_annotations (report_of L i (orig_doc ! i) (annot_doc ! i)) \<noteq> [])"
    using Cons.IH [OF rest, of ?total' "reports @ [report_of L p (orig_doc ! p) (annot_doc ! p)]"]
    by blast
  have ge: "n \<ge> ?total'"
  proof -
    have "\<And>qs tc rs e m rs'. detect_pages L fs original_pdf annotated_pdf qs tc rs = (e, m, rs')
        \<Longrightarrow> m \<ge> tc"
    proof -
      fix qs tc rs e m rs'
      show "detect_pages L fs original_pdf annotated_pdf qs tc rs = (e, m, rs') \<Longrightarrow> m \<ge> tc"
      proof (induction qs arbitrary: tc rs)
        case Nil
        then show ?case by simp
      next
        case (Cons q qs)
        then show ?case
          by (fastforce split: sum.splits prod.splits if_splits)
      qed
    qed
    then show ?thesis using n(1) by blast
  qed
  have step: "detect_pages L fs original_pdf annotated_pdf (p # ps) total_count reports =
      detect_pages L fs original_pdf annotated_pdf ps ?total'
        (reports @ [report_of L p (orig_doc ! p) (annot_doc ! p)])"
    using io ia fd ac rp by simp
  have 1: "detect_pages L fs original_pdf annotated_pdf (p # ps) total_count reports =
      (None, n, reports @ map (\<lambda>i. report_of L i (orig_doc ! i) (annot_doc ! i)) (p # ps))"
    using step n(1) by simp
  have 2: "n > total_count \<longleftrightarrow>
         (\<exists>i \<in> set (p # ps). pr_annotations (report_of L i (orig_doc ! i) (annot_doc ! i)) \<noteq> [])"
  proof (cases "?anns = []")
    case True
    then show ?thesis using n(2) rp by simp
  next
    case False
    then have "n > total_count" using ge by (cases ?anns) auto
    then show ?thesis using False rp by simp
  qed
  show ?case using 1 2 by blast
qed


lemma find_differences_pipeline:
  "find_differences L original_img annotated_img =
     (let common = (min (img_width original_img) (img_width annotated_img),
                    min (img_height original_img) (img_height annotated_img));
          a = (if img_size original_img = img_size annotated_img then original_img
               else resize L original_img common);
          b = (if img_size original_img = img_size annotated_img then annotated_img
               else resize L annotated_img common);
          diff = difference L a b;
          thresh = lib_threshold L (lib_to_gray L diff) 30 255 THRESH_BINARY
      in (diff, lib_find_contours L thresh RETR_EXTERNAL CHAIN_APPROX_SIMPLE, thresh))"
  by (simp add: find_differences_def Let_def)

lemma compared_sizes:
  "img_size (if img_size original_img = img_size annotated_img then original_img
             else resize L original_img
                    (min (img_width original_img) (img_width annotated_img),
                     min (img_height original_img) (img_height annotated_img))) =
     (min (img_width original_img) (img_width annotated_img),
      min (img_height original_img) (img_height annotated_img))"
  "img_size (if img_size original_img = img_size annotated_img then annotated_img
             else resize L annotated_img
                    (min (img_width original_img) (img_width annotated_img),
                     min (img_height original_img) (img_height annotated_img))) =
     (min (img_width original_img) (img_width annotated_img),
      min (img_height original_img) (img_height annotated_img))"
  by (auto simp: img_size_def resize_def)

text \<open>
  C3. When both PDFs open, with \<open>n\<close> and \<open>m\<close> pages, and the contours the image
  library returns have bounding rectangles of non-zero height, the detector completes
  exactly the pages \<open>0\<close> to \<open>min n m - 1\<close>, in order. For each of them it takes the
  render of that page of both PDFs and reports what \<open>find_differences\<close> returns for
  the two, and the annotations are those of the contours of area 100 or more.
  \<open>find_differences\<close> resizes both images to the smaller width and the smaller height
  when their sizes differ, so that the two images compared have the same size, takes
  their difference, thresholds its grey values at 30 (to 255, binary) and extracts
  the external contours of the result.
\<close>

theorem detect_flattened_compares_pages:
  assumes "fs original_pdf = Some (Pdf orig_doc)"
    and "fs annotated_pdf = Some (Pdf annot_doc)"
    and "\<forall>g. \<forall>c \<in> set (lib_find_contours L g RETR_EXTERNAL CHAIN_APPROX_SIMPLE). rect_h c \<noteq> 0"
  shows "map pr_page (snd (detect_flattened_annotations L fs original_pdf annotated_pdf)) =
           [0 ..< min (length orig_doc) (length annot_doc)] \<and>
         (\<forall>i < min (length orig_doc) (length annot_doc).
            (let r = snd (detect_flattened_annotations L fs original_pdf annotated_pdf) ! i in
             pr_page r = i \<and>
             (pr_diff r, pr_contours r, pr_thresh r) =
               find_differences L (orig_doc ! i) (annot_doc ! i) \<and>
             pr_annotations r =
               map contour_annotation (filter (\<lambda>c. \<not> contourArea c < 100) (pr_contours r)))) \<and>
         (\<forall>original_img annotated_img.
            find_differences L original_img annotated_img =
              (let common = (min (img_width original_img) (img_width annotated_img),
                             min (img_height original_img) (img_height annotated_img));
                   a = (if img_size original_img = img_size annotated_img then original_img
                        else resize L original_img common);
                   b = (if img_size original_img = img_size annotated_img then annotated_img
                        else resize L annotated_img common);
                   diff = difference L a b;
                   thresh = lib_threshold L (lib_to_gray L diff) 30 255 THRESH_BINARY
               in (diff, lib_find_contours L thresh RETR_EXTERNAL CHAIN_APPROX_SIMPLE, thresh)) \<and>
            img_size (if img_size original_img = img_size annotated_img then original_img
                      else resize L original_img
                             (min (img_width original_img) (img_width annotated_img),
                              min (img_height original_img) (img_height annotated_img))) =
              img_size (if img_size original_img = img_size annotated_img then annotated_img
                        else resize L annotated_img
                               (min (img_width original_img) (img_width annotated_img),
                                min (img_height original_img) (img_height annotated_img))))"
proof -
  let ?n = "min (length orig_doc) (length annot_doc)"
  let ?rep = "\<lambda>i. report_of L i (orig_doc ! i) (annot_doc ! i)"
  have bound: "\<forall>p \<in> set [0 ..< ?n]. p < length orig_doc \<and> p < length annot_doc" by simp
  obtain n where n: "detect_pages L fs original_pdf annotated_pdf [0 ..< ?n] 0 [] =
      (None, n, [] @ map ?rep [0 ..< ?n])"
    using detect_pages_all [OF assms bound, of 0 "[]"] by blast
  have res: "snd (detect_flattened_annotations L fs original_pdf annotated_pdf) = map ?rep [0 ..< ?n]"
    using assms(1,2) n
    by (simp add: detect_flattened_annotations_def path_exists_def fitz_open_def Let_def)
  have page: "\<And>i. pr_page (?rep i) = i"
    by (simp add: report_of_def split: prod.splits)
  have 1: "map pr_page (snd (detect_flattened_annotations L fs original_pdf annotated_pdf)) = [0 ..< ?n]"
    unfolding res by (simp add: page map_idI)
  have 2: "\<forall>i < ?n.
            (let r = snd (detect_flattened_annotations L fs original_pdf annotated_pdf) ! i in
             pr_page r = i \<and>
             (pr_diff r, pr_contours r, pr_thresh r) =
               find_differences L (orig_doc ! i) (annot_doc ! i) \<and>
             pr_annotations r =
               map contour_annotation (filter (\<lambda>c. \<not> contourArea c < 100) (pr_contours r)))"
    unfolding res by (auto simp: report_of_def Let_def split: prod.splits)
  have 3: "\<forall>original_img annotated_img.
            find_differences L original_img annotated_img =
              (let common = (min (img_width original_img) (img_width annotated_img),
                             min (img_height original_img) (img_height annotated_img));
                   a = (if img_size original_img = img_size annotated_img then original_img
                        else resize L original_img common);
                   b = (if img_size original_img = img_size annotated_img then annotated_img
                        else resize L annotated_img common);
                   diff = difference L a b;
                   thresh = lib_threshold L (lib_to_gray L diff) 30 255 THRESH_BINARY
               in (diff, lib_find_contours L thresh RETR_EXTERNAL CHAIN_APPROX_SIMPLE, thresh)) \<and>
            img_size (if img_size original_img = img_size annotated_img then original_img
                      else resize L original_img
                             (min (img_width original_img) (img_width annotated_img),
                              min (img_height original_img) (img_height annotated_img))) =
              img_size (if img_size original_img = img_size annotated_img then annotated_img
                        else resize L annotated_img
                               (min (img_width original_img) (img_width annotated_img),
                                min (img_height original_img) (img_height annotated_img)))"
    using find_differences_pipeline [of L] compared_sizes [of _ _ L] by simp
  show ?thesis using 1 2 3 by blast
qed

text \<open>
  The example renders: a clean PDF of three pages against an annotated one of two,
  whose second page has another size; two pages are compared.
\<close>

theorem detect_flattened_compares_pages_witness:
  "map pr_page (snd (detect_flattened_annotations ex_image_library ex_render_fs
                       ''clean.pdf'' ''annotated.pdf'')) = [0, 1] \<and>
   map (\<lambda>r. map fa_type (pr_annotations r))
     (snd (detect_flattened_annotations ex_image_library ex_render_fs
             ''clean.pdf'' ''annotated.pdf'')) = [[''text/rectangle''], []]"
proof -
  have o: "ex_render_fs ''clean.pdf'' =
      Some (Pdf [\<lparr>img_width = 2, img_height = 2, img_pixels = [0, 0, 0, 0]\<rparr>,
             \<lparr>img_width = 2, img_height = 2, img_pixels = [9, 9, 9, 9]\<rparr>,
             \<lparr>img_width = 2, img_height = 2, img_pixels = [5, 5, 5, 5]\<rparr>])"
    by (simp add: ex_render_fs_def)
  have a: "ex_render_fs ''annotated.pdf'' =
      Some (Pdf [\<lparr>img_width = 2, img_height = 2, img_pixels = [0, 200, 0, 20]\<rparr>,
             \<lparr>img_width = 3, img_height = 2, img_pixels = [9, 9, 9, 9]\<rparr>])"
    by (simp add: ex_render_fs_def)
  have h: "\<forall>g. \<forall>c \<in> set (lib_find_contours ex_image_library g RETR_EXTERNAL CHAIN_APPROX_SIMPLE).
      rect_h c \<noteq> 0"
    by (auto simp: ex_image_library_def rect_h_def)
  have r: "[0 ..< min (length [\<lparr>img_width = 2, img_height = 2, img_pixels = [0, 0, 0, 0 :: nat]\<rparr>,
             \<lparr>img_width = 2, img_height = 2, img_pixels = [9, 9, 9, 9]\<rparr>,
             \<lparr>img_width = 2, img_height = 2, img_pixels = [5, 5, 5, 5]\<rparr>])
            (length [\<lparr>img_width = 2, img_height = 2, img_pixels = [0, 200, 0, 20 :: nat]\<rparr>,
             \<lparr>img_width = 3, img_height = 2, img_pixels = [9, 9, 9, 9]\<rparr>])] = [0, 1]"
    by code_simp
  have v: "map (\<lambda>r. map fa_type (pr_annotations r))
     (snd (detect_flattened_annotations ex_image_library ex_render_fs
             ''clean.pdf'' ''annotated.pdf'')) = [[''text/rectangle''], []]"
    by code_simp
  show ?thesis
    using detect_flattened_compares_pages
      [where fs = ex_render_fs and original_pdf = "''clean.pdf''"
         and annotated_pdf = "''annotated.pdf''", OF o a h] v
    unfolding r by blast
qed

subsection \<open>The library calls of the annotation-text detector\<close>

lemma get_pdf_text_blocks_calls:
  "set (snd (get_pdf_text_blocks fs pdf_path page_num)) \<subseteq> insert (FitzOpen pdf_path) (range GetText)"
  by (auto simp: get_pdf_text_blocks_def split: sum.splits)

lemma detect_text_pages_calls:
  "set (snd (detect_text_pages fs pdf_path ps acc calls)) \<subseteq>
     set calls \<union> insert (FitzOpen pdf_path) (range GetText)"
proof (induction ps arbitrary: acc calls)
  case Nil
  then show ?case by auto
next
  case (Cons p ps)
  obtain r made where g: "get_pdf_text_blocks fs pdf_path p = (r, made)"
    by (cases "get_pdf_text_blocks fs pdf_path p") auto
  have m: "set made \<subseteq> insert (FitzOpen pdf_path) (range GetText)"
    using get_pdf_text_blocks_calls [of fs pdf_path p] g by simp
  show ?case
  proof (cases r)
    case (Inl e)
    then show ?thesis using g m by auto
  next
    case (Inr tb)
    have "set (snd (detect_text_pages fs pdf_path ps
              (acc @ find_potential_annotation_text tb (analyze_text_characteristics tb))
              (calls @ made))) \<subseteq>
          set (calls @ made) \<union> insert (FitzOpen pdf_path) (range GetText)"
      by (rule Cons.IH)
    then show ?thesis using g m Inr by (auto simp: Let_def)
  qed
qed

lemma detect_annotation_text_calls:
  "set (snd (detect_annotation_text fs pdf_path)) \<subseteq> insert (FitzOpen pdf_path) (range GetText)"
proof (cases "path_exists fs pdf_path")
  case False
  then show ?thesis by (simp add: detect_annotation_text_def)
next
  case True
  show ?thesis
  proof (cases "fitz_open fs pdf_path")
    case (Inl e)
    then show ?thesis using True by (simp add: detect_annotation_text_def)
  next
    case (Inr doc)
    obtain r calls where d:
      "detect_text_pages fs pdf_path [0 ..< length doc] [] [FitzOpen pdf_path] = (r, calls)"
      by (cases "detect_text_pages fs pdf_path [0 ..< length doc] [] [FitzOpen pdf_path]") auto
    have "set calls \<subseteq> set [FitzOpen pdf_path] \<union> insert (FitzOpen pdf_path) (range GetText)"
      using detect_text_pages_calls [of fs pdf_path "[0 ..< length doc]" "[]" "[FitzOpen pdf_path]"] d
      by simp
    then have c: "set calls \<subseteq> insert (FitzOpen pdf_path) (range GetText)" by auto
    have "snd (detect_annotation_text fs pdf_path) = calls"
      using True Inr d by (cases r) (simp_all add: detect_annotation_text_def Let_def)
    then show ?thesis using c by simp
  qed
qed

text \<open>
  C2 does not hold of the code. The script is documented as using OCR and defines
  \<open>pdf_page_to_image\<close> and \<open>ocr_page\<close> for it, but \<open>detect_annotation_text\<close> calls
  neither: on every input the only library calls it makes are \<open>fitz.open\<close> and
  \<open>page.get_text\<close>. It makes none of the calls \<open>ocr_page\<close> makes, never runs the OCR
  engine and never renders a page. On the example PDF of two pages it opens the
  document, fetches the text of page 0 and of page 1, and returns \<open>True\<close>.
\<close>

theorem detect_annotation_text_runs_no_ocr:
  "set (snd (detect_annotation_text fs pdf_path)) \<inter> set (snd (ocr_page L page_image)) = {} \<and>
   ImageToData \<notin> set (snd (detect_annotation_text fs pdf_path)) \<and>
   (\<forall>page_num. GetPixmap page_num \<notin> set (snd (detect_annotation_text fs pdf_path))) \<and>
   detect_annotation_text ex_text_fs ''paper.pdf'' =
     (True, [FitzOpen ''paper.pdf'', FitzOpen ''paper.pdf'', GetText 0,
             FitzOpen ''paper.pdf'', GetText 1])"
proof -
  have s: "set (snd (detect_annotation_text fs pdf_path)) \<subseteq>
      insert (FitzOpen pdf_path) (range GetText)"
    by (rule detect_annotation_text_calls)
  have o: "set (snd (ocr_page L page_image)) = {CvtColor, ImageToData}"
    by (simp add: ocr_page_def Let_def)
  have 1: "set (snd (detect_annotation_text fs pdf_path)) \<inter> set (snd (ocr_page L page_image)) = {}"
    unfolding o using s by auto
  have 2: "ImageToData \<notin> set (snd (detect_annotation_text fs pdf_path))"
    using s by auto
  have 3: "\<forall>page_num. GetPixmap page_num \<notin> set (snd (detect_annotation_text fs pdf_path))"
    using s by auto
  have 4: "detect_annotation_text ex_text_fs ''paper.pdf'' =
     (True, [FitzOpen ''paper.pdf'', FitzOpen ''paper.pdf'', GetText 0,
             FitzOpen ''paper.pdf'', GetText 1])"
    by code_simp
  show ?thesis using 1 2 3 4 by blast
qed

end
